theory Spec2Isabelle
  imports Main "HOL-Library.Sublist" "HOL-Library.Char_ord" "HOL-Library.List_Lexorder"
begin

section \<open>String primitives of the host language\<close>

text \<open>
  The updater (\<^verbatim>\<open>start.mjs\<close>) works on JavaScript strings. A string is modelled as a
  \<^typ>\<open>string\<close>, one \<^typ>\<open>char\<close> per code unit, which covers the code units below 256.
  \<^verbatim>\<open>Array.prototype.sort()\<close> without a comparator orders strings by code units, which is
  the lexicographic order of \<^typ>\<open>char list\<close> used here.

  \<^verbatim>\<open>String.prototype.trim\<close> removes white space and line terminators from both ends;
  below 256 these are TAB, LF, VT, FF, CR, SPACE and NBSP.
\<close>

definition is_ws :: "char \<Rightarrow> bool" where
  "is_ws c = (c \<in> {CHR 0x09, CHR 0x0A, CHR 0x0B, CHR 0x0C, CHR 0x0D, CHR '' '', CHR 0xA0})"

definition trim :: "string \<Rightarrow> string" where
  "trim s = rev (dropWhile is_ws (rev (dropWhile is_ws s)))"

text \<open>\<^verbatim>\<open>s.indexOf(pat)\<close>: the position of the leftmost occurrence, \<open>None\<close> for \<^verbatim>\<open>-1\<close>.\<close>

fun indexOf :: "string \<Rightarrow> string \<Rightarrow> nat option" where
  "indexOf pat [] = (if pat = [] then Some 0 else None)"
| "indexOf pat (c # cs) =
     (if prefix pat (c # cs) then Some 0 else map_option Suc (indexOf pat cs))"

text \<open>
  \<^verbatim>\<open>s.replace(pat, rep)\<close> with a string pattern replaces the leftmost occurrence only
  (the replacement used by the source is the empty string, which has no \<^verbatim>\<open>$\<close> patterns).
\<close>

definition replace_first :: "string \<Rightarrow> string \<Rightarrow> string \<Rightarrow> string" where
  "replace_first pat rep s =
     (case indexOf pat s of
        None \<Rightarrow> s
      | Some i \<Rightarrow> take i s @ rep @ drop (i + length pat) s)"

text \<open>
  \<^verbatim>\<open>s.split(sep)\<close> with a non-empty string separator cuts at every occurrence of the
  separator, scanning from the left, occurrences not overlapping. (With the empty separator
  JavaScript splits into code units; the source never does that, and the model returns
  \<open>[s]\<close> there.)
\<close>

function split_str :: "string \<Rightarrow> string \<Rightarrow> string list" where
  "split_str sep s =
     (case indexOf sep s of
        None \<Rightarrow> [s]
      | Some i \<Rightarrow>
          if sep = [] then [s]
          else take i s # split_str sep (drop (i + length sep) s))"
  by pat_completeness auto
termination
proof (relation "measure (\<lambda>(sep, s). length s)")
  show "wf (measure (\<lambda>(sep, s). length s))" by simp
next
  fix sep s :: string and i
  assume found: "indexOf sep s = Some i" and sep: "sep \<noteq> []"
  have "indexOf sep t = Some k \<Longrightarrow> k + length sep \<le> length t" for t k
  proof (induction t arbitrary: k)
    case Nil
    then show ?case by (simp split: if_splits)
  next
    case (Cons c cs)
    then show ?case
      by (auto split: if_splits dest: prefix_length_le)
  qed
  from this [OF found] have "i + length sep \<le> length s" .
  moreover from sep have "0 < length sep" by simp
  ultimately have "length s - (i + length sep) < length s"
    by arith
  then show "((sep, drop (i + length sep) s), (sep, s)) \<in> measure (\<lambda>(sep, s). length s)"
    by simp
qed

declare split_str.simps [simp del]

text \<open>\<^verbatim>\<open>arr[i]\<close> is \<^verbatim>\<open>undefined\<close> past the end; \<^verbatim>\<open>x || d\<close> takes \<open>d\<close> when \<open>x\<close> is
  \<^verbatim>\<open>undefined\<close> or the empty string.\<close>

definition at :: "'a list \<Rightarrow> nat \<Rightarrow> 'a option" where
  "at xs i = (if i < length xs then Some (xs ! i) else None)"

definition or_else :: "string option \<Rightarrow> string \<Rightarrow> string" where
  "or_else x d = (case x of None \<Rightarrow> d | Some s \<Rightarrow> if s = [] then d else s)"

section \<open>Installed mods: the filename parser\<close>

text \<open>
  \<^verbatim>\<open>{names: [], versions: {}}\<close>. The \<open>versions\<close> object is read only at string keys and
  compared with strings, so a lookup is a \<^typ>\<open>string option\<close>: \<open>None\<close> stands for every
  value that is not a recorded version (\<^verbatim>\<open>undefined\<close>, or a member inherited from
  \<^verbatim>\<open>Object.prototype\<close>). An assignment to the key \<^verbatim>\<open>__proto__\<close> of a plain object with a
  string value goes to the inherited setter, which ignores it: no property is created.
\<close>

record installed =
  names :: "string list"
  versions :: "string \<rightharpoonup> string"

definition obj_set :: "(string \<rightharpoonup> string) \<Rightarrow> string \<Rightarrow> string \<Rightarrow> (string \<rightharpoonup> string)" where
  "obj_set obj key v = (if key = ''__proto__'' then obj else obj(key \<mapsto> v))"

text \<open>\<^verbatim>\<open>itemSplit[1].replace('_P.pak','').split('V')[1] || '1'\<close>\<close>

definition version_of :: "string \<Rightarrow> string" where
  "version_of part = or_else (at (split_str ''V'' (replace_first ''_P.pak'' '''' part)) 1) ''1''"

text \<open>The callback of \<^verbatim>\<open>files.reduce\<close> in \<^verbatim>\<open>getInstalledMods\<close>.\<close>

definition parseItem :: "installed \<Rightarrow> string \<Rightarrow> installed" where
  "parseItem mods item =
     (let itemSplit = split_str '' - '' item in
      if length itemSplit > 1 then
        (let name = itemSplit ! 0;
             version = version_of (itemSplit ! 1)
         in mods\<lparr>names := names mods @ [trim name],
                 versions := obj_set (versions mods) name (trim version)\<rparr>)
      else mods)"

text \<open>\<^verbatim>\<open>getInstalledMods\<close>, on the listing that \<^verbatim>\<open>readdir\<close> returned.\<close>

definition getInstalledMods :: "string list \<Rightarrow> installed" where
  "getInstalledMods files =
     foldl parseItem \<lparr>names = [], versions = Map.empty\<rparr> (sort files)"

section \<open>Reconciliation\<close>

record entry =
  DisplayName :: string
  Version :: string
  DownloadUrl :: string

record remote = entry +
  slug :: string

text \<open>\<^verbatim>\<open>Array.prototype.indexOf\<close>: the first index holding the value, or \<open>-1\<close>.\<close>

fun arr_indexOf :: "'a list \<Rightarrow> 'a \<Rightarrow> int" where
  "arr_indexOf [] x = - 1"
| "arr_indexOf (y # ys) x =
     (if y = x then 0
      else (let i = arr_indexOf ys x in if i = - 1 then - 1 else i + 1))"

definition findMatchingMods :: "remote list \<Rightarrow> installed \<Rightarrow> remote list" where
  "findMatchingMods remoteRegistryArray installedMods =
     filter (\<lambda>item. arr_indexOf (names installedMods) (DisplayName item) \<noteq> - 1)
       remoteRegistryArray"

definition checkOutdatedMods :: "remote list \<Rightarrow> installed \<Rightarrow> remote list" where
  "checkOutdatedMods matchingMods installedMods =
     filter (\<lambda>item. versions installedMods (DisplayName item) \<noteq> Some (Version item))
       matchingMods"

text \<open>
  What the callback reads off one file name: whether it is accepted
  (\<^verbatim>\<open>itemSplit.length > 1\<close>), its name \<^verbatim>\<open>itemSplit[0]\<close> as \<^verbatim>\<open>split\<close> returns it, before
  trimming, and its version, after trimming.
\<close>

definition accepted :: "string \<Rightarrow> bool" where
  "accepted item = (1 < length (split_str '' - '' item))"

definition rawName :: "string \<Rightarrow> string" where
  "rawName item = split_str '' - '' item ! 0"

definition fileVersion :: "string \<Rightarrow> string" where
  "fileVersion item = trim (version_of (split_str '' - '' item ! 1))"

section \<open>Downloads\<close>

text \<open>The target file name of \<^verbatim>\<open>downloadFile\<close>:
  \<^verbatim>\<open>`${item.DisplayName} - V${item.Version} _P.pak`\<close>.\<close>

definition fileName :: "remote \<Rightarrow> string" where
  "fileName item = DisplayName item @ '' - V'' @ Version item @ '' _P.pak''"

text \<open>
  \<^verbatim>\<open>downloadFile\<close> is an asynchronous function with two suspension points: it awaits
  \<^verbatim>\<open>got.head(url)\<close>, then it opens the download stream and the file writer and waits for
  \<^verbatim>\<open>pipeline\<close>. What the network and the disk answer is the environment's choice, and so
  is the order of the answers across the calls in flight. The two timers of the program
  (\<^verbatim>\<open>setTimeout\<close> with 1000 ms in \<^verbatim>\<open>downloadOutdatedMods\<close>, with 2500 ms in \<^verbatim>\<open>finished\<close>)
  fire at a moment that the environment chooses as well, once they are armed. All of this is
  given to the model as a list of events; a reply is addressed to a call of
  \<^verbatim>\<open>downloadFile\<close> by its position in \<^verbatim>\<open>promises\<close>.
\<close>

datatype head_reply = HeadError | Headers "string option"

datatype pipeline_reply = PipelineError | PipelineDone

datatype event = Head nat head_reply | Pipeline nat pipeline_reply | BarTimer | ExitTimer

datatype progress = AwaitHead | Streaming | Resolved | Rejected

datatype promise = Pending | Fulfilled | Failed

text \<open>
  The state of \<^verbatim>\<open>downloadOutdatedMods\<close>: the calls of \<^verbatim>\<open>downloadFile\<close> with their items,
  the files opened by \<^verbatim>\<open>createWriteStream\<close> (by name, all in \<^verbatim>\<open>modPath\<close>), the totals of
  the progress bars created, the value of \<^verbatim>\<open>totalDownloadsBar\<close> and whether it has been
  stopped, the lines written by \<^verbatim>\<open>console.error\<close> and by \<^verbatim>\<open>console.log\<close>, the promise
  \<^verbatim>\<open>Promise.all(promises)\<close>, whether the 1000 ms timer is armed, the number of calls of
  \<^verbatim>\<open>finished\<close>, whether the 2500 ms timer is armed, and the argument of \<^verbatim>\<open>process.exit\<close>
  once the process has ended.
\<close>

record downloads =
  tasks :: "(remote \<times> progress) list"
  written :: "string list"
  barTotals :: "string option list"
  totalDownloadsBar :: nat
  barStopped :: bool
  stderr :: "string list"
  stdout :: "string list"
  allPromise :: promise
  barTimer :: bool
  finishedCalls :: nat
  exitTimer :: bool
  exitCode :: "int option"

definition settle :: "nat \<Rightarrow> progress \<Rightarrow> downloads \<Rightarrow> downloads" where
  "settle i p d = d\<lparr>tasks := (tasks d)[i := (fst (tasks d ! i), p)]\<rparr>"

text \<open>\<^verbatim>\<open>totalDownloadsBar.increment(1)\<close>: a bar of \<^verbatim>\<open>cli-progress\<close> takes updates while it is
  active, between \<^verbatim>\<open>start\<close> and \<^verbatim>\<open>stop\<close>; once stopped it drops them.\<close>

definition increment :: "downloads \<Rightarrow> downloads" where
  "increment d =
     (if barStopped d then d else d\<lparr>totalDownloadsBar := totalDownloadsBar d + 1\<rparr>)"

text \<open>\<^verbatim>\<open>finished\<close> arms the 2500 ms timer whose callback logs and calls
  \<^verbatim>\<open>process.exit(0)\<close>. (Its two calls on \<^verbatim>\<open>startBar\<close>, the bar of \<^verbatim>\<open>checkMods\<close>, are left
  out.)\<close>

definition finished :: "downloads \<Rightarrow> downloads" where
  "finished d = d\<lparr>finishedCalls := finishedCalls d + 1, exitTimer := True\<rparr>"

text \<open>
  \<^verbatim>\<open>Promise.all(promises).then(...).catch(...)\<close>: the promise of \<^verbatim>\<open>Promise.all\<close> rejects
  at the first rejection among \<^verbatim>\<open>promises\<close> and fulfils once all of them are fulfilled; it
  settles once. Its rejection runs the \<^verbatim>\<open>catch\<close> handler: stop the bar, log,
  \<^verbatim>\<open>finished\<close>. Its fulfilment runs the \<^verbatim>\<open>then\<close> handler, which arms the 1000 ms timer.
\<close>

definition join :: "downloads \<Rightarrow> downloads" where
  "join d =
     (if allPromise d \<noteq> Pending then d
      else if Rejected \<in> set (map snd (tasks d)) then
        finished (d\<lparr>barStopped := True,
                    stderr := stderr d @ [''Failed to download files''],
                    allPromise := Failed\<rparr>)
      else if list_all (\<lambda>p. p = Resolved) (map snd (tasks d)) then
        d\<lparr>allPromise := Fulfilled, barTimer := True\<rparr>
      else d)"

text \<open>The callback of the 1000 ms timer: stop the bar, \<^verbatim>\<open>finished\<close>.\<close>

definition barTimeout :: "downloads \<Rightarrow> downloads" where
  "barTimeout d =
     (if barTimer d then finished (d\<lparr>barStopped := True, barTimer := False\<rparr>) else d)"

text \<open>The callback of the 2500 ms timer: \<^verbatim>\<open>console.log('Finished updating Mods')\<close>,
  \<^verbatim>\<open>process.exit(0)\<close>.\<close>

definition exitTimeout :: "downloads \<Rightarrow> downloads" where
  "exitTimeout d =
     (if exitTimer d then
        d\<lparr>stdout := stdout d @ [''Finished updating Mods''],
          exitTimer := False,
          exitCode := Some 0\<rparr>
      else d)"

text \<open>The continuation of \<^verbatim>\<open>downloadFile\<close> after \<^verbatim>\<open>await got.head(url)\<close>: a failed request
  throws out of the function; otherwise the progress bar is created with the
  \<^verbatim>\<open>content-length\<close> header as its total and the two streams are opened.\<close>

definition headReply :: "nat \<Rightarrow> head_reply \<Rightarrow> downloads \<Rightarrow> downloads" where
  "headReply i r d =
     (if i < length (tasks d) \<and> snd (tasks d ! i) = AwaitHead then
        (case r of
           HeadError \<Rightarrow> join (settle i Rejected d)
         | Headers contentLength \<Rightarrow>
             settle i Streaming
               (d\<lparr>written := written d @ [fileName (fst (tasks d ! i))],
                  barTotals := barTotals d @ [contentLength]\<rparr>))
      else d)"

text \<open>The two handlers on \<^verbatim>\<open>pipeline(downloadStream, fileWriterStream)\<close>.\<close>

definition pipelineReply :: "nat \<Rightarrow> pipeline_reply \<Rightarrow> downloads \<Rightarrow> downloads" where
  "pipelineReply i r d =
     (if i < length (tasks d) \<and> snd (tasks d ! i) = Streaming then
        (case r of
           PipelineDone \<Rightarrow> join (settle i Resolved (increment d))
         | PipelineError \<Rightarrow>
             join (settle i Rejected
               (d\<lparr>stderr := stderr d @ [''Download failed for '' @ fileName (fst (tasks d ! i))]\<rparr>)))
      else d)"

text \<open>What the code does on an event.\<close>

fun deliver :: "downloads \<Rightarrow> event \<Rightarrow> downloads" where
  "deliver d (Head i r) = headReply i r d"
| "deliver d (Pipeline i r) = pipelineReply i r d"
| "deliver d BarTimer = barTimeout d"
| "deliver d ExitTimer = exitTimeout d"

text \<open>What the process does on an event: after \<^verbatim>\<open>process.exit\<close> no code runs any more.\<close>

definition step :: "downloads \<Rightarrow> event \<Rightarrow> downloads" where
  "step d ev = (if exitCode d = None then deliver d ev else d)"

text \<open>\<^verbatim>\<open>downloadOutdatedMods\<close> starts \<^verbatim>\<open>totalDownloadsBar\<close>, calls \<^verbatim>\<open>downloadFile\<close> on every
  item, each call running up to its first \<^verbatim>\<open>await\<close>, and joins the promises.\<close>

definition downloadOutdatedMods :: "remote list \<Rightarrow> downloads" where
  "downloadOutdatedMods outdatedMods =
     join \<lparr>tasks = map (\<lambda>item. (item, AwaitHead)) outdatedMods,
           written = [], barTotals = [], totalDownloadsBar = 0, barStopped = False,
           stderr = [], stdout = [], allPromise = Pending, barTimer = False,
           finishedCalls = 0, exitTimer = False, exitCode = None\<rparr>"

definition downloading :: "remote list \<Rightarrow> event list \<Rightarrow> downloads" where
  "downloading outdatedMods evs = foldl step (downloadOutdatedMods outdatedMods) evs"

definition terminal :: "progress \<Rightarrow> bool" where
  "terminal p = (p = Resolved \<or> p = Rejected)"

text \<open>
  The state of the join agrees with the states of the calls; \<^verbatim>\<open>finished\<close> has run once
  when the join has failed or the 1000 ms timer has fired after its fulfilment, and not
  otherwise; the bar is stopped, and the exit armed or done, exactly then; the join's
  failure is logged; \<^verbatim>\<open>totalDownloadsBar\<close> counts the resolved calls as long as the join has
  not failed, and never more than them.
\<close>

definition joined :: "downloads \<Rightarrow> bool" where
  "joined d =
     ((allPromise d = Failed \<longleftrightarrow> Rejected \<in> set (map snd (tasks d)))
      \<and> (allPromise d = Fulfilled \<longleftrightarrow> list_all (\<lambda>p. p = Resolved) (map snd (tasks d)))
      \<and> finishedCalls d =
          (if allPromise d = Failed \<or> allPromise d = Fulfilled \<and> \<not> barTimer d then 1 else 0)
      \<and> (barTimer d \<longrightarrow> allPromise d = Fulfilled)
      \<and> (barStopped d \<longleftrightarrow> finishedCalls d = 1)
      \<and> ((exitTimer d \<or> exitCode d = Some 0) \<longleftrightarrow> finishedCalls d = 1)
      \<and> (exitCode d = None \<or> exitCode d = Some 0)
      \<and> (''Failed to download files'' \<in> set (stderr d) \<longleftrightarrow> allPromise d = Failed)
      \<and> totalDownloadsBar d \<le> length (filter (\<lambda>p. p = Resolved) (map snd (tasks d)))
      \<and> (allPromise d \<noteq> Failed \<longrightarrow>
           totalDownloadsBar d = length (filter (\<lambda>p. p = Resolved) (map snd (tasks d)))))"

section \<open>The run\<close>

text \<open>
  \<^verbatim>\<open>checkMods\<close> joins \<^verbatim>\<open>fetchRegistry\<close> and \<^verbatim>\<open>getInstalledMods\<close> with \<^verbatim>\<open>Promise.all\<close>;
  each of the two either fails or delivers its value. The registry is the JSON object,
  as the list of its keys and values in the enumeration order of \<^verbatim>\<open>for ... in\<close>.
  \<^verbatim>\<open>localeCompare\<close> depends on the locale of the host, so the sort by \<open>DisplayName\<close> is a
  parameter.
\<close>

datatype error = RegistryFetchError | DirectoryReadError

datatype run = Uncaught string | Aborted string | Finished | Downloads downloads

definition checkMods ::
  "(remote list \<Rightarrow> remote list) \<Rightarrow> error + (string \<times> entry) list \<Rightarrow> error + string list \<Rightarrow> run"
where
  "checkMods localeSort fetched listed =
     (case (fetched, listed) of
        (Inr remoteRegistry, Inr files) \<Rightarrow>
          (let installedMods = getInstalledMods files;
               remoteRegistryArray =
                 localeSort (map (\<lambda>(slug, item).
                   \<lparr>DisplayName = DisplayName item, Version = Version item,
                    DownloadUrl = DownloadUrl item, slug = slug\<rparr>) remoteRegistry);
               matchingMods = findMatchingMods remoteRegistryArray installedMods;
               outdatedMods = checkOutdatedMods matchingMods installedMods
           in if outdatedMods \<noteq> [] then Downloads (downloadOutdatedMods outdatedMods)
              else Finished)
      | _ \<Rightarrow> Aborted ''Failed to get data'')"

text \<open>
  The module itself: without an argument \<^verbatim>\<open>dir=...\<close> it throws before \<^verbatim>\<open>checkMods\<close> is
  called, and the error is not caught. (The \<^verbatim>\<open>try\<close> block around the path resolution calls
  nothing that throws on a string.)
\<close>

definition start ::
  "string list \<Rightarrow> (remote list \<Rightarrow> remote list) \<Rightarrow> error + (string \<times> entry) list \<Rightarrow>
     error + string list \<Rightarrow> run"
where
  "start argv localeSort fetched listed =
     (case find (\<lambda>val. prefix ''dir='' val) argv of
        None \<Rightarrow> Uncaught ''Please provide the installation directory path for Deep Rock Galactic''
      | Some cliArg \<Rightarrow> checkMods localeSort fetched listed)"

text \<open>The download tasks a run has created.\<close>

definition created :: "run \<Rightarrow> remote list" where
  "created r = (case r of Downloads d \<Rightarrow> map fst (tasks d) | _ \<Rightarrow> [])"

text \<open>
  The calls of \<^verbatim>\<open>process.exit\<close> a run makes, by their argument. The only call in the program
  is \<^verbatim>\<open>process.exit(0)\<close> in \<^verbatim>\<open>finished\<close>; the \<^verbatim>\<open>catch\<close> handler of \<^verbatim>\<open>checkMods\<close> stops the
  bar and logs, and neither exits nor throws again.
\<close>

definition exits :: "run \<Rightarrow> int list" where
  "exits r =
     (case r of
        Uncaught msg \<Rightarrow> []
      | Aborted msg \<Rightarrow> []
      | Finished \<Rightarrow> [0]
      | Downloads d \<Rightarrow> replicate (finishedCalls d) 0)"

text \<open>The status of the process: the argument of the first \<^verbatim>\<open>process.exit\<close>; with no such
  call, 1 after an uncaught error and 0 when the event loop drains.\<close>

definition status :: "run \<Rightarrow> int" where
  "status r =
     (case exits r of
        c # cs \<Rightarrow> c
      | [] \<Rightarrow> (case r of Uncaught msg \<Rightarrow> 1 | _ \<Rightarrow> 0))"

section \<open>Example data\<close>

definition mod_A :: remote where
  "mod_A = \<lparr>DisplayName = ''A'', Version = ''2'',
     DownloadUrl = ''https://example.org/a'', slug = ''a''\<rparr>"

definition mod_B :: remote where
  "mod_B = \<lparr>DisplayName = ''B'', Version = ''3'',
     DownloadUrl = ''https://example.org/b'', slug = ''b''\<rparr>"

definition mod_beta :: remote where
  "mod_beta = \<lparr>DisplayName = ''Foo'', Version = ''1.2 - beta'',
     DownloadUrl = ''https://example.org/foo'', slug = ''foo''\<rparr>"

definition mod_Foo :: remote where
  "mod_Foo = \<lparr>DisplayName = ''Foo'', Version = ''2'',
     DownloadUrl = ''https://example.org/foo'', slug = ''foo''\<rparr>"

definition mod_C :: remote where
  "mod_C = \<lparr>DisplayName = ''C'', Version = ''4'',
     DownloadUrl = ''https://example.org/c'', slug = ''c''\<rparr>"

definition three_mods :: "remote list" where
  "three_mods = [mod_A, mod_B, mod_C]"

definition stream2_fails :: "event list" where
  "stream2_fails =
     [Head 0 (Headers (Some ''10'')), Head 1 (Headers None), Head 2 (Headers (Some ''30'')),
      Pipeline 1 PipelineError]"

definition others_complete :: "event list" where
  "others_complete = [Pipeline 0 PipelineDone, Pipeline 2 PipelineDone]"

definition mod_ten :: remote where
  "mod_ten = \<lparr>DisplayName = ''A'', Version = ''10'',
     DownloadUrl = ''https://example.org/a'', slug = ''a''\<rparr>"

definition exit_first :: "event list" where
  "exit_first = stream2_fails @ [ExitTimer] @ others_complete"

section \<open>The reconciler\<close>

lemma arr_indexOf_ge: "- 1 \<le> arr_indexOf xs x"
  by (induction xs) (auto simp: Let_def)

lemma arr_indexOf_mem: "arr_indexOf xs x \<noteq> - 1 \<longleftrightarrow> x \<in> set xs"
proof (induction xs)
  case Nil
  show ?case by simp
next
  case (Cons y ys)
  have "arr_indexOf ys x + 1 \<noteq> - 1"
    using arr_indexOf_ge [of ys x] by arith
  with Cons show ?case by (auto simp: Let_def)
qed

text \<open>
  C8. \<^verbatim>\<open>findMatchingMods\<close> returns the registry entries whose \<open>DisplayName\<close> is an element
  of the installed names list (equality of strings), in the order of the registry; on the
  registry \<open>[A, B]\<close> with installed names \<open>[A]\<close> the result is \<open>[A]\<close>.
\<close>

theorem findMatchingMods_membership:
  "findMatchingMods registry inst =
     filter (\<lambda>item. DisplayName item \<in> set (names inst)) registry
   \<and> subseq (findMatchingMods registry inst) registry
   \<and> findMatchingMods [mod_A, mod_B] \<lparr>names = [''A''], versions = vs\<rparr> = [mod_A]"
  by (simp add: findMatchingMods_def arr_indexOf_mem mod_A_def mod_B_def)

text \<open>
  C9. \<^verbatim>\<open>checkOutdatedMods\<close> keeps, in order, exactly the entries whose \<open>Version\<close> is not the
  version string recorded for their \<open>DisplayName\<close>; the result is empty when every entry's
  \<open>Version\<close> is the recorded one, and the whole input when every entry's differs.
\<close>

theorem checkOutdatedMods_inequality:
  "(item \<in> set (checkOutdatedMods matching inst) \<longleftrightarrow>
      item \<in> set matching \<and> versions inst (DisplayName item) \<noteq> Some (Version item))
   \<and> subseq (checkOutdatedMods matching inst) matching
   \<and> ((\<forall>m \<in> set matching. versions inst (DisplayName m) = Some (Version m)) \<longrightarrow>
        checkOutdatedMods matching inst = [])
   \<and> ((\<forall>m \<in> set matching. versions inst (DisplayName m) \<noteq> Some (Version m)) \<longrightarrow>
        checkOutdatedMods matching inst = matching)"
  by (auto simp: checkOutdatedMods_def filter_empty_conv filter_id_conv)

theorem checkOutdatedMods_inequality_witness:
  "versions \<lparr>names = [''A'', ''B''], versions = [''A'' \<mapsto> ''2'', ''B'' \<mapsto> ''3'']\<rparr>
      (DisplayName mod_A) = Some (Version mod_A)
   \<and> versions \<lparr>names = [''A'', ''B''], versions = [''A'' \<mapsto> ''2'', ''B'' \<mapsto> ''3'']\<rparr>
      (DisplayName mod_B) = Some (Version mod_B)
   \<and> checkOutdatedMods [mod_A, mod_B]
        \<lparr>names = [''A'', ''B''], versions = [''A'' \<mapsto> ''2'', ''B'' \<mapsto> ''3'']\<rparr> = []
   \<and> versions \<lparr>names = [''A'', ''B''], versions = [''A'' \<mapsto> ''1'', ''B'' \<mapsto> ''03'']\<rparr>
      (DisplayName mod_A) \<noteq> Some (Version mod_A)
   \<and> versions \<lparr>names = [''A'', ''B''], versions = [''A'' \<mapsto> ''1'', ''B'' \<mapsto> ''03'']\<rparr>
      (DisplayName mod_B) \<noteq> Some (Version mod_B)
   \<and> checkOutdatedMods [mod_A, mod_B]
        \<lparr>names = [''A'', ''B''], versions = [''A'' \<mapsto> ''1'', ''B'' \<mapsto> ''03'']\<rparr>
      = [mod_A, mod_B]
   \<and> mod_A \<in> set (checkOutdatedMods [mod_A, mod_B]
        \<lparr>names = [''A'', ''B''], versions = [''A'' \<mapsto> ''1'', ''B'' \<mapsto> ''3'']\<rparr>)
   \<and> mod_B \<notin> set (checkOutdatedMods [mod_A, mod_B]
        \<lparr>names = [''A'', ''B''], versions = [''A'' \<mapsto> ''1'', ''B'' \<mapsto> ''3'']\<rparr>)"
  using
    checkOutdatedMods_inequality [of mod_A "[mod_A, mod_B]"
      "\<lparr>names = [''A'', ''B''], versions = [''A'' \<mapsto> ''2'', ''B'' \<mapsto> ''3'']\<rparr>"]
    checkOutdatedMods_inequality [of mod_A "[mod_A, mod_B]"
      "\<lparr>names = [''A'', ''B''], versions = [''A'' \<mapsto> ''1'', ''B'' \<mapsto> ''03'']\<rparr>"]
    checkOutdatedMods_inequality [of mod_A "[mod_A, mod_B]"
      "\<lparr>names = [''A'', ''B''], versions = [''A'' \<mapsto> ''1'', ''B'' \<mapsto> ''3'']\<rparr>"]
    checkOutdatedMods_inequality [of mod_B "[mod_A, mod_B]"
      "\<lparr>names = [''A'', ''B''], versions = [''A'' \<mapsto> ''1'', ''B'' \<mapsto> ''3'']\<rparr>"]
  by (simp add: mod_A_def mod_B_def)

section \<open>Occurrences of a pattern in a string\<close>

lemma indexOf_None_iff: "indexOf pat s = None \<longleftrightarrow> \<not> sublist pat s"
  by (induction s) (auto simp: sublist_Cons_right)

lemma indexOf_None: "\<not> sublist pat s \<Longrightarrow> indexOf pat s = None"
  by (simp add: indexOf_None_iff)

lemma early_occurrence:
  assumes "j < length a" "prefix pat (drop j (a @ pat @ r))"
  shows "sublist pat (a @ butlast pat)"
proof (cases "pat = []")
  case True
  then show ?thesis by simp
next
  case False
  let ?t = "drop j a @ butlast pat"
  have "prefix ?t (drop j (a @ pat @ r))"
    using assms(1) by (simp add: prefix_def) (metis append_butlast_last_id False append.assoc)
  moreover have "length pat \<le> length ?t"
    using assms(1) False by (simp add: Suc_leI)
  ultimately have "prefix pat ?t"
    using assms(2) prefix_length_prefix by blast
  then have "sublist pat ?t" by simp
  moreover have "sublist ?t (a @ butlast pat)"
    using assms(1) by (metis drop_append sublist_drop diff_is_0_eq' drop_0 less_imp_le)
  ultimately show ?thesis
    using sublist_order.order_trans by blast
qed

lemma indexOf_first:
  "(\<And>j. j < length a \<Longrightarrow> \<not> prefix pat (drop j (a @ pat @ r))) \<Longrightarrow>
     indexOf pat (a @ pat @ r) = Some (length a)"
proof (induction a)
  case Nil
  have "prefix pat (pat @ r)" by simp
  then show ?case by (cases "pat @ r") auto
next
  case (Cons c a)
  have "\<not> prefix pat ((c # a) @ pat @ r)"
    using Cons.prems [of 0] by simp
  moreover have "indexOf pat (a @ pat @ r) = Some (length a)"
  proof (rule Cons.IH)
    fix j assume "j < length a"
    then show "\<not> prefix pat (drop j (a @ pat @ r))"
      using Cons.prems [of "Suc j"] by simp
  qed
  ultimately show ?case by simp
qed

lemma indexOf_append:
  "\<not> sublist pat (a @ butlast pat) \<Longrightarrow> indexOf pat (a @ pat @ r) = Some (length a)"
  by (rule indexOf_first) (blast dest: early_occurrence)

lemma split_str_none: "\<not> sublist sep s \<Longrightarrow> split_str sep s = [s]"
  by (simp add: split_str.simps [of sep s] indexOf_None)

lemma split_str_first:
  assumes "sep \<noteq> []" "\<not> sublist sep (a @ butlast sep)"
  shows "split_str sep (a @ sep @ r) = a # split_str sep r"
  using assms by (simp add: split_str.simps [of sep "a @ sep @ r"] indexOf_append)

lemma replace_first_append:
  "\<not> sublist pat (a @ butlast pat) \<Longrightarrow> replace_first pat rep (a @ pat @ r) = a @ rep @ r"
  by (simp add: replace_first_def indexOf_append)

text \<open>The separators of the file name scheme at the seams of a concatenation.\<close>

lemma sep_clean:
  "\<not> sublist '' - '' a \<Longrightarrow> \<not> suffix '' -'' a \<Longrightarrow> \<not> sublist '' - '' (a @ '' -'')"
  by (auto simp: sublist_append Cons_eq_append_conv sublist_Cons_right dest: suffix_imp_sublist)

lemma sep_in_plain_part:
  "\<not> sublist '' - '' k \<Longrightarrow> \<not> sublist '' - '' (''V'' @ k @ ''_P.pak'')"
  by (auto simp: sublist_append Cons_eq_append_conv sublist_Cons_right suffix_Cons dest: suffix_imp_sublist)

lemma sep_in_spaced_part:
  "\<not> sublist '' - '' v \<Longrightarrow> \<not> suffix '' -'' v \<Longrightarrow> \<not> sublist '' - '' (''V'' @ v @ '' _P.pak'')"
  by (auto simp: sublist_append Cons_eq_append_conv sublist_Cons_right suffix_Cons dest: suffix_imp_sublist)

lemma pak_in_plain_part:
  "\<not> sublist ''_P.pak'' k \<Longrightarrow> \<not> sublist ''_P.pak'' ((''V'' @ k) @ ''_P.pa'')"
  by (auto simp: sublist_append Cons_eq_append_conv sublist_Cons_right suffix_Cons dest: suffix_imp_sublist)

lemma pak_in_spaced_part:
  "\<not> sublist ''_P.pak'' v \<Longrightarrow> \<not> sublist ''_P.pak'' ((''V'' @ v @ '' '') @ ''_P.pa'')"
  by (auto simp: sublist_append Cons_eq_append_conv sublist_Cons_right suffix_Cons dest: suffix_imp_sublist)

lemma trim_append_space: "trim (s @ '' '') = trim s"
proof -
  have ws: "is_ws CHR '' ''" by (simp add: is_ws_def)
  show ?thesis
  proof (cases "\<forall>x \<in> set s. is_ws x")
    case True
    then have d: "dropWhile is_ws s = []" by simp
    have "trim (s @ '' '') = []"
      using True ws by (simp add: trim_def dropWhile_append)
    moreover have "trim s = []"
      by (simp add: trim_def d)
    ultimately show ?thesis by simp
  next
    case False
    with ws show ?thesis
      by (auto simp: trim_def dropWhile_append)
  qed
qed

lemma split_V: "\<not> sublist ''V'' k \<Longrightarrow> split_str ''V'' (''V'' @ k) = ['''', k]"
  using split_str_first [of "''V''" "[]" k] by (simp add: split_str_none)

lemma version_of_plain:
  assumes "\<not> sublist ''V'' k" "\<not> sublist ''_P.pak'' k" "k \<noteq> []"
  shows "version_of (''V'' @ k @ ''_P.pak'') = k"
proof -
  have "\<not> sublist ''_P.pak'' ((''V'' @ k) @ butlast ''_P.pak'')"
    using assms(2) pak_in_plain_part [of k] by simp
  then have "replace_first ''_P.pak'' '''' ((''V'' @ k) @ ''_P.pak'' @ []) = (''V'' @ k) @ '''' @ []"
    by (rule replace_first_append)
  then have "replace_first ''_P.pak'' '''' (''V'' @ k @ ''_P.pak'') = ''V'' @ k"
    by simp
  then have "version_of (''V'' @ k @ ''_P.pak'') = or_else (at (split_str ''V'' (''V'' @ k)) 1) ''1''"
    by (simp only: version_of_def)
  also have "\<dots> = or_else (at ['''', k] 1) ''1''"
    using split_V [OF assms(1)] by simp
  also have "\<dots> = k"
    using assms(3) by (simp add: at_def or_else_def)
  finally show ?thesis .
qed

lemma version_of_spaced:
  assumes "\<not> sublist ''V'' v" "\<not> sublist ''_P.pak'' v"
  shows "version_of (''V'' @ v @ '' _P.pak'') = v @ '' ''"
proof -
  have "\<not> sublist ''_P.pak'' ((''V'' @ v @ '' '') @ butlast ''_P.pak'')"
    using assms(2) pak_in_spaced_part [of v] by simp
  then have "replace_first ''_P.pak'' '''' ((''V'' @ v @ '' '') @ ''_P.pak'' @ []) = (''V'' @ v @ '' '') @ '''' @ []"
    by (rule replace_first_append)
  then have "replace_first ''_P.pak'' '''' (''V'' @ v @ '' _P.pak'') = ''V'' @ (v @ '' '')"
    by simp
  then have "version_of (''V'' @ v @ '' _P.pak'') = or_else (at (split_str ''V'' (''V'' @ (v @ '' ''))) 1) ''1''"
    by (simp only: version_of_def)
  moreover have "\<not> sublist ''V'' (v @ '' '')"
    using assms(1) by (auto simp: sublist_append Cons_eq_append_conv sublist_Cons_right)
  then have "split_str ''V'' (''V'' @ (v @ '' '')) = ['''', v @ '' '']"
    by (rule split_V)
  ultimately show ?thesis
    by (simp add: at_def or_else_def)
qed

lemma version_of_default: "version_of ''_P.pak'' = ''1''"
  by code_simp

lemma split_sep_single:
  assumes "\<not> sublist '' - '' a" "\<not> suffix '' -'' a" "\<not> sublist '' - '' b"
  shows "split_str '' - '' (a @ '' - '' @ b) = [a, b]"
proof -
  have "\<not> sublist '' - '' (a @ butlast '' - '')"
    using assms(1,2) sep_clean [of a] by simp
  then have "split_str '' - '' (a @ '' - '' @ b) = a # split_str '' - '' b"
    by (intro split_str_first) simp_all
  then show ?thesis
    using assms(3) by (simp add: split_str_none)
qed

lemma split_sep_double:
  assumes "\<not> sublist '' - '' a" "\<not> suffix '' -'' a" "\<not> sublist '' - '' b" "\<not> suffix '' -'' b"
  shows "split_str '' - '' (a @ '' - '' @ b @ '' - '' @ c) = a # b # split_str '' - '' c"
proof -
  have a: "\<not> sublist '' - '' (a @ butlast '' - '')"
    using assms(1,2) sep_clean [of a] by simp
  have b: "\<not> sublist '' - '' (b @ butlast '' - '')"
    using assms(3,4) sep_clean [of b] by simp
  have "split_str '' - '' (a @ '' - '' @ b @ '' - '' @ c) = a # split_str '' - '' (b @ '' - '' @ c)"
    using a by (intro split_str_first) simp_all
  moreover have "split_str '' - '' (b @ '' - '' @ c) = b # split_str '' - '' c"
    using b by (intro split_str_first) simp_all
  ultimately show ?thesis by simp
qed

section \<open>The filename parser\<close>

lemma getInstalledMods_single:
  "getInstalledMods [f] = parseItem \<lparr>names = [], versions = Map.empty\<rparr> f"
  by (simp add: getInstalledMods_def)

lemma parseItem_skip: "\<not> sublist '' - '' item \<Longrightarrow> parseItem mods item = mods"
  by (simp add: parseItem_def split_str_none)

lemma parseItem_parts:
  "split_str '' - '' item = a # b # rest \<Longrightarrow>
     parseItem mods item =
       mods\<lparr>names := names mods @ [trim a],
            versions := obj_set (versions mods) a (trim (version_of b))\<rparr>"
  by (simp add: parseItem_def)

text \<open>
  C4 (as the code has it). \<^verbatim>\<open>item.split(' - ')\<close> cuts at every occurrence of the
  separator, not once. A file name without the separator is skipped. Otherwise part 0,
  the text before the first separator, is the name, and part 1 is the text between the
  first and the second separator: it is the whole remainder only when the separator occurs
  once, and with more occurrences everything after the second separator is ignored.
\<close>

theorem parseItem_separator_segments:
  "(\<not> sublist '' - '' item \<longrightarrow> parseItem mods item = mods)
   \<and> (\<not> sublist '' - '' a \<and> \<not> suffix '' -'' a \<and> \<not> sublist '' - '' b \<longrightarrow>
        parseItem mods (a @ '' - '' @ b) =
          mods\<lparr>names := names mods @ [trim a],
               versions := obj_set (versions mods) a (trim (version_of b))\<rparr>)
   \<and> (\<not> sublist '' - '' a \<and> \<not> suffix '' -'' a \<and> \<not> sublist '' - '' b \<and> \<not> suffix '' -'' b \<longrightarrow>
        parseItem mods (a @ '' - '' @ b @ '' - '' @ c) =
          mods\<lparr>names := names mods @ [trim a],
               versions := obj_set (versions mods) a (trim (version_of b))\<rparr>)"
  by (blast intro: parseItem_skip parseItem_parts split_sep_single split_sep_double)

theorem parseItem_separator_segments_witness:
  "\<not> sublist '' - '' ''Other.pak''
   \<and> parseItem \<lparr>names = [], versions = Map.empty\<rparr> ''Other.pak'' = \<lparr>names = [], versions = Map.empty\<rparr>
   \<and> \<not> sublist '' - '' ''A'' \<and> \<not> suffix '' -'' ''A'' \<and> \<not> sublist '' - '' ''B'' \<and> \<not> suffix '' -'' ''B''
   \<and> parseItem \<lparr>names = [], versions = Map.empty\<rparr> (''A'' @ '' - '' @ ''B'') =
       \<lparr>names = [''A''], versions = [''A'' \<mapsto> ''1'']\<rparr>
   \<and> parseItem \<lparr>names = [], versions = Map.empty\<rparr> (''A'' @ '' - '' @ ''B'' @ '' - '' @ ''V2_P.pak'') =
       \<lparr>names = [''A''], versions = [''A'' \<mapsto> ''1'']\<rparr>"
proof -
  have h: "\<not> sublist '' - '' ''Other.pak''"
    "\<not> sublist '' - '' ''A''" "\<not> suffix '' -'' ''A''" "\<not> sublist '' - '' ''B''" "\<not> suffix '' -'' ''B''"
    by code_simp+
  have v: "trim ''A'' = ''A''" "trim (version_of ''B'') = ''1''"
    by code_simp+
  show ?thesis
    using h parseItem_separator_segments
      [of "''Other.pak''" "\<lparr>names = [], versions = Map.empty\<rparr>" "''A''" "''B''" "''V2_P.pak''"]
    by (simp add: v obj_set_def del: append.simps)
qed

text \<open>
  The example of C4: \<^verbatim>\<open>"A - B - V2_P.pak"\<close> has three parts, the version is read from
  \<^verbatim>\<open>"B"\<close> alone and defaults to \<^verbatim>\<open>"1"\<close>, although the remainder after the first
  separator would give \<^verbatim>\<open>"2"\<close>.
\<close>

theorem split_once_counterexample:
  "split_str '' - '' ''A - B - V2_P.pak'' = [''A'', ''B'', ''V2_P.pak'']
   \<and> version_of ''B - V2_P.pak'' = ''2''
   \<and> versions (getInstalledMods [''A - B - V2_P.pak'']) ''A'' = Some ''1''
   \<and> versions (getInstalledMods [''A - B - V2_P.pak'']) ''A'' \<noteq> Some ''2''"
  by code_simp

lemma parse_plain:
  assumes "\<not> sublist '' - '' name" "\<not> suffix '' -'' name"
    and "\<not> sublist '' - '' part"
  shows "getInstalledMods [name @ '' - '' @ part] =
     \<lparr>names = [trim name], versions = obj_set Map.empty name (trim (version_of part))\<rparr>"
  using assms
  by (simp add: getInstalledMods_single parseItem_parts [OF split_sep_single] del: append.simps)

text \<open>
  C6 (as the code has it). A listing that holds the single file name
  \<^verbatim>\<open>"Name - V<k>_P.pak"\<close> parses to the name \<open>Name\<close> with the version \<open>k\<close>, when \<open>Name\<close>
  has no separator, does not end in \<^verbatim>\<open>" -"\<close>, is its own trimmed form and is not
  \<^verbatim>\<open>__proto__\<close>, and \<open>k\<close> is not empty, is its own trimmed form and has no \<^verbatim>\<open>"V"\<close>, no
  separator and no \<^verbatim>\<open>"_P.pak"\<close> inside. For \<^verbatim>\<open>"Name - _P.pak"\<close>, under the same
  conditions on \<open>Name\<close>, the version is \<^verbatim>\<open>"1"\<close>.
\<close>

theorem parse_name_version:
  assumes "\<not> sublist '' - '' name" "\<not> suffix '' -'' name" "trim name = name"
    and "name \<noteq> ''__proto__''"
  shows "(\<not> sublist ''V'' k \<and> \<not> sublist '' - '' k \<and> \<not> sublist ''_P.pak'' k \<and> trim k = k \<and> k \<noteq> [] \<longrightarrow>
            getInstalledMods [name @ '' - V'' @ k @ ''_P.pak''] =
              \<lparr>names = [name], versions = [name \<mapsto> k]\<rparr>)
         \<and> getInstalledMods [name @ '' - _P.pak''] =
              \<lparr>names = [name], versions = [name \<mapsto> ''1'']\<rparr>"
proof (intro conjI impI)
  assume k: "\<not> sublist ''V'' k \<and> \<not> sublist '' - '' k \<and> \<not> sublist ''_P.pak'' k \<and> trim k = k \<and> k \<noteq> []"
  then have "\<not> sublist '' - '' (''V'' @ k @ ''_P.pak'')"
    by (simp add: sep_in_plain_part del: append.simps)
  then have "getInstalledMods [name @ '' - '' @ (''V'' @ k @ ''_P.pak'')] =
     \<lparr>names = [trim name], versions = obj_set Map.empty name (trim (version_of (''V'' @ k @ ''_P.pak'')))\<rparr>"
    using assms(1,2) by (intro parse_plain)
  moreover have "version_of (''V'' @ k @ ''_P.pak'') = k"
    using k by (intro version_of_plain) simp_all
  ultimately show "getInstalledMods [name @ '' - V'' @ k @ ''_P.pak''] =
      \<lparr>names = [name], versions = [name \<mapsto> k]\<rparr>"
    using assms(3,4) k by (simp add: obj_set_def)
next
  have "\<not> sublist '' - '' ''_P.pak''" by code_simp
  then have "getInstalledMods [name @ '' - '' @ ''_P.pak''] =
     \<lparr>names = [trim name], versions = obj_set Map.empty name (trim (version_of ''_P.pak''))\<rparr>"
    using assms(1,2) by (intro parse_plain)
  moreover have "trim ''1'' = ''1''" by code_simp
  ultimately show "getInstalledMods [name @ '' - _P.pak''] =
      \<lparr>names = [name], versions = [name \<mapsto> ''1'']\<rparr>"
    using assms(3,4) by (simp add: obj_set_def version_of_default)
qed

theorem parse_name_version_witness:
  "\<not> sublist '' - '' ''Foo'' \<and> \<not> suffix '' -'' ''Foo'' \<and> trim ''Foo'' = ''Foo''
   \<and> ''Foo'' \<noteq> ''__proto__''
   \<and> \<not> sublist ''V'' ''2.1'' \<and> \<not> sublist '' - '' ''2.1'' \<and> \<not> sublist ''_P.pak'' ''2.1''
   \<and> trim ''2.1'' = ''2.1'' \<and> ''2.1'' \<noteq> []
   \<and> getInstalledMods [''Foo'' @ '' - V'' @ ''2.1'' @ ''_P.pak''] =
        \<lparr>names = [''Foo''], versions = [''Foo'' \<mapsto> ''2.1'']\<rparr>
   \<and> getInstalledMods [''Foo'' @ '' - _P.pak''] =
        \<lparr>names = [''Foo''], versions = [''Foo'' \<mapsto> ''1'']\<rparr>"
proof -
  have n: "\<not> sublist '' - '' ''Foo''" "\<not> suffix '' -'' ''Foo''" "trim ''Foo'' = ''Foo''"
    "''Foo'' \<noteq> ''__proto__''"
    by code_simp+
  have k: "\<not> sublist ''V'' ''2.1''" "\<not> sublist '' - '' ''2.1''" "\<not> sublist ''_P.pak'' ''2.1''"
    "trim ''2.1'' = ''2.1''" "''2.1'' \<noteq> []"
    by code_simp+
  from parse_name_version [OF n, of "''2.1''"] n k show ?thesis
    by blast
qed

text \<open>
  C6 fails without these conditions: an empty \<open>k\<close> gives the default \<^verbatim>\<open>"1"\<close>, a \<open>k\<close>
  with a separator inside is cut at it, and a name that ends in \<^verbatim>\<open>" -"\<close> loses its end.
\<close>

theorem parse_name_version_counterexample:
  "\<not> sublist '' - '' ''Foo'' \<and> \<not> sublist ''V'' '''' \<and> \<not> sublist ''V'' ''1 - beta''
   \<and> versions (getInstalledMods [''Foo'' @ '' - V'' @ '''' @ ''_P.pak'']) ''Foo'' = Some ''1''
   \<and> versions (getInstalledMods [''Foo'' @ '' - V'' @ ''1 - beta'' @ ''_P.pak'']) ''Foo'' = Some ''1''
   \<and> \<not> sublist '' - '' ''Foo -''
   \<and> names (getInstalledMods [''Foo -'' @ '' - V'' @ ''2'' @ ''_P.pak'']) = [''Foo'']"
  by code_simp

section \<open>Duplicate names and the order of the listing\<close>

lemma parseItem_contribution:
  "parseItem mods f =
     mods\<lparr>names := names mods @ names (parseItem \<lparr>names = [], versions = Map.empty\<rparr> f),
          versions := versions mods ++ versions (parseItem \<lparr>names = [], versions = Map.empty\<rparr> f)\<rparr>"
  by (simp add: parseItem_def obj_set_def Let_def)

lemma versions_parseItem:
  "versions (parseItem mods f) n =
     (case versions (parseItem \<lparr>names = [], versions = Map.empty\<rparr> f) n of
        None \<Rightarrow> versions mods n
      | Some v \<Rightarrow> Some v)"
  by (subst parseItem_contribution) (simp add: map_add_def)

lemma names_foldl_parseItem:
  "names (foldl parseItem mods fs) =
     names mods @ concat (map (\<lambda>g. names (parseItem \<lparr>names = [], versions = Map.empty\<rparr> g)) fs)"
proof (induction fs arbitrary: mods)
  case Nil
  show ?case by simp
next
  case (Cons f fs)
  have "names (parseItem mods f) =
      names mods @ names (parseItem \<lparr>names = [], versions = Map.empty\<rparr> f)"
    by (subst parseItem_contribution) simp
  then show ?case by (simp add: Cons.IH)
qed

lemma versions_foldl_unchanged:
  assumes "\<forall>g \<in> set fs. versions (parseItem \<lparr>names = [], versions = Map.empty\<rparr> g) n = None
              \<or> versions (parseItem \<lparr>names = [], versions = Map.empty\<rparr> g) n = w"
    and "versions mods n = w"
  shows "versions (foldl parseItem mods fs) n = w"
  using assms
proof (induction fs arbitrary: mods)
  case Nil
  then show ?case by simp
next
  case (Cons f fs)
  have "versions (parseItem mods f) n = w"
    using Cons.prems by (auto simp: versions_parseItem [of mods f n] split: option.splits)
  with Cons show ?case by simp
qed

lemma parseItem_accepted:
  "parseItem mods f =
     (if accepted f then
        mods\<lparr>names := names mods @ [trim (rawName f)],
             versions := obj_set (versions mods) (rawName f) (fileVersion f)\<rparr>
      else mods)"
  by (simp add: parseItem_def accepted_def rawName_def fileVersion_def Let_def)

text \<open>A file records a version under the name \<open>n\<close> when it is accepted and its name,
  untrimmed, is \<open>n\<close>; the one name under which nothing is ever recorded is \<^verbatim>\<open>__proto__\<close>.\<close>

lemma records_version_iff:
  "versions (parseItem \<lparr>names = [], versions = Map.empty\<rparr> f) n \<noteq> None \<longleftrightarrow>
     accepted f \<and> rawName f = n \<and> n \<noteq> ''__proto__''"
  by (auto simp: parseItem_accepted obj_set_def)

lemma recorded_version:
  "accepted f \<Longrightarrow> rawName f \<noteq> ''__proto__'' \<Longrightarrow>
     versions (parseItem \<lparr>names = [], versions = Map.empty\<rparr> f) (rawName f) = Some (fileVersion f)"
  by (simp add: parseItem_accepted obj_set_def)

lemma versions_last_file:
  assumes "f \<in> set files"
    and "versions (parseItem \<lparr>names = [], versions = Map.empty\<rparr> f) n \<noteq> None"
    and "\<forall>g \<in> set files.
           versions (parseItem \<lparr>names = [], versions = Map.empty\<rparr> g) n \<noteq> None \<longrightarrow> g \<le> f"
  shows "versions (getInstalledMods files) n =
           versions (parseItem \<lparr>names = [], versions = Map.empty\<rparr> f) n"
proof -
  let ?m0 = "\<lparr>names = [], versions = Map.empty\<rparr>"
  let ?w = "versions (parseItem ?m0 f) n"
  from assms(1) have "f \<in> set (sort files)" by simp
  then obtain xs ys where split: "sort files = xs @ f # ys"
    by (metis split_list)
  have "sorted (xs @ f # ys)"
    using sorted_sort [of files] by (simp only: split)
  then have above: "\<forall>g \<in> set ys. f \<le> g"
    by (simp add: sorted_append)
  have "set (xs @ f # ys) = set files"
    unfolding split [symmetric] by simp
  then have "set ys \<subseteq> set files"
    by auto
  with assms(3) above
  have later: "\<forall>g \<in> set ys. versions (parseItem ?m0 g) n = None \<or> versions (parseItem ?m0 g) n = ?w"
    by (metis order_antisym subsetD)
  have "versions (parseItem (foldl parseItem ?m0 xs) f) n = ?w"
    using assms(2) by (auto simp: versions_parseItem [of "foldl parseItem ?m0 xs" f n])
  with later have "versions (foldl parseItem (parseItem (foldl parseItem ?m0 xs) f) ys) n = ?w"
    by (rule versions_foldl_unchanged)
  then show ?thesis
    by (simp add: getInstalledMods_def split)
qed

lemma names_getInstalledMods:
  "names (getInstalledMods files) = map (\<lambda>g. trim (rawName g)) (filter accepted (sort files))"
proof -
  have "concat (map (\<lambda>g. names (parseItem \<lparr>names = [], versions = Map.empty\<rparr> g)) fs) =
      map (\<lambda>g. trim (rawName g)) (filter accepted fs)" for fs
    by (induction fs) (simp_all add: parseItem_accepted)
  then show ?thesis
    by (simp add: getInstalledMods_def names_foldl_parseItem)
qed



lemma last_named_file_wins:
  assumes "f \<in> set files" "accepted f" "rawName f = n" "n \<noteq> ''__proto__''"
    and "\<forall>g \<in> set files. accepted g \<and> rawName g = n \<longrightarrow> g \<le> f"
  shows "versions (getInstalledMods files) n = Some (fileVersion f)"
proof -
  have v: "versions (parseItem \<lparr>names = [], versions = Map.empty\<rparr> f) n = Some (fileVersion f)"
    using assms(2,3,4) recorded_version [of f] by simp
  then have rec: "versions (parseItem \<lparr>names = [], versions = Map.empty\<rparr> f) n \<noteq> None"
    by simp
  have "\<forall>g \<in> set files.
      versions (parseItem \<lparr>names = [], versions = Map.empty\<rparr> g) n \<noteq> None \<longrightarrow> g \<le> f"
    using assms(5) records_version_iff by blast
  with assms(1) rec have "versions (getInstalledMods files) n =
      versions (parseItem \<lparr>names = [], versions = Map.empty\<rparr> f) n"
    by (rule versions_last_file)
  with v show ?thesis by simp
qed




text \<open>
  C5 at the listing \<^verbatim>\<open>["Foo  - V2_P.pak"]\<close> (two spaces before the dash): the names list
  receives the trimmed \<^verbatim>\<open>"Foo"\<close>, but \<^verbatim>\<open>mods.versions[name]\<close> is keyed by the untrimmed
  \<^verbatim>\<open>"Foo "\<close>. The lookup of \<^verbatim>\<open>"Foo"\<close> finds no version, and a registry entry \<^verbatim>\<open>Foo\<close> of
  the installed version \<^verbatim>\<open>"2"\<close> is matched and reported outdated.
\<close>

theorem versions_key_untrimmed:
  "names (getInstalledMods [''Foo  - V2_P.pak'']) = [''Foo'']
   \<and> versions (getInstalledMods [''Foo  - V2_P.pak'']) ''Foo'' = None
   \<and> versions (getInstalledMods [''Foo  - V2_P.pak'']) ''Foo '' = Some ''2''
   \<and> findMatchingMods [mod_Foo] (getInstalledMods [''Foo  - V2_P.pak'']) = [mod_Foo]
   \<and> checkOutdatedMods [mod_Foo] (getInstalledMods [''Foo  - V2_P.pak'']) = [mod_Foo]"
  by code_simp

section \<open>The file name scheme, there and back\<close>

lemma downloaded_file_parts:
  assumes "\<not> sublist '' - '' (DisplayName item)" "\<not> suffix '' -'' (DisplayName item)"
    and "\<not> sublist ''V'' (Version item)" "\<not> sublist '' - '' (Version item)"
    and "\<not> suffix '' -'' (Version item)" "\<not> sublist ''_P.pak'' (Version item)"
  shows "accepted (fileName item)" "rawName (fileName item) = DisplayName item"
    "fileVersion (fileName item) = trim (Version item)"
proof -
  let ?part = "''V'' @ Version item @ '' _P.pak''"
  have f: "fileName item = DisplayName item @ '' - '' @ ?part"
    by (simp add: fileName_def)
  have "\<not> sublist '' - '' ?part"
    using assms(4,5) by (rule sep_in_spaced_part)
  with assms(1,2) have "split_str '' - '' (DisplayName item @ '' - '' @ ?part) = [DisplayName item, ?part]"
    by (rule split_sep_single)
  then have s: "split_str '' - '' (fileName item) = [DisplayName item, ?part]"
    by (simp only: f)
  have v: "version_of ?part = Version item @ '' ''"
    using assms(3,6) by (rule version_of_spaced)
  show "accepted (fileName item)" "rawName (fileName item) = DisplayName item"
    by (simp_all add: accepted_def rawName_def s)
  show "fileVersion (fileName item) = trim (Version item)"
    by (simp add: fileVersion_def s v trim_append_space del: append.simps)
qed

text \<open>
  C10 (as the code has it). Let \<open>DisplayName\<close> have no separator, not end in \<^verbatim>\<open>" -"\<close>, be
  trimmed and not be \<^verbatim>\<open>__proto__\<close>, and let \<open>Version\<close> be trimmed, have no \<^verbatim>\<open>"V"\<close>, no
  separator and no \<^verbatim>\<open>"_P.pak"\<close> inside and not end in \<^verbatim>\<open>" -"\<close>. Then the file that
  \<^verbatim>\<open>downloadFile\<close> writes for the entry, as a listing of its own, parses back to the
  entry's \<open>DisplayName\<close> and \<open>Version\<close>, and the entry is matched and not outdated. In a
  listing that holds the file among others the entry is matched and not outdated when
  every accepted file whose trimmed name is the \<open>DisplayName\<close> carries that very name and
  is not after the downloaded file in lexicographic order. (The program does not remove
  the file of the version it replaces.)
\<close>

theorem download_roundtrip:
  assumes "\<not> sublist '' - '' (DisplayName item)" "\<not> suffix '' -'' (DisplayName item)"
    and "trim (DisplayName item) = DisplayName item" "DisplayName item \<noteq> ''__proto__''"
    and "\<not> sublist ''V'' (Version item)" "\<not> sublist '' - '' (Version item)"
    and "\<not> suffix '' -'' (Version item)" "\<not> sublist ''_P.pak'' (Version item)"
    and "trim (Version item) = Version item"
  shows "getInstalledMods [fileName item] =
           \<lparr>names = [DisplayName item], versions = [DisplayName item \<mapsto> Version item]\<rparr>
         \<and> findMatchingMods [item] (getInstalledMods [fileName item]) = [item]
         \<and> checkOutdatedMods [item] (getInstalledMods [fileName item]) = []
         \<and> (fileName item \<in> set files
              \<and> (\<forall>g \<in> set files. accepted g \<and> trim (rawName g) = DisplayName item \<longrightarrow>
                    rawName g = DisplayName item \<and> g \<le> fileName item) \<longrightarrow>
             versions (getInstalledMods files) (DisplayName item) = Some (Version item)
             \<and> findMatchingMods [item] (getInstalledMods files) = [item]
             \<and> checkOutdatedMods [item] (getInstalledMods files) = [])"
proof -
  note parts = downloaded_file_parts [OF assms(1,2,5,6,7,8)]
  have g: "getInstalledMods [fileName item] =
      \<lparr>names = [DisplayName item], versions = [DisplayName item \<mapsto> Version item]\<rparr>"
    using parts assms(3,4,9)
    by (simp add: getInstalledMods_single parseItem_accepted obj_set_def)
  have later: "versions (getInstalledMods files) (DisplayName item) = Some (Version item)
      \<and> findMatchingMods [item] (getInstalledMods files) = [item]
      \<and> checkOutdatedMods [item] (getInstalledMods files) = []"
    if mem: "fileName item \<in> set files"
      and last: "\<forall>g \<in> set files. accepted g \<and> trim (rawName g) = DisplayName item \<longrightarrow>
                    rawName g = DisplayName item \<and> g \<le> fileName item"
  proof -
    have "\<forall>g \<in> set files. accepted g \<and> rawName g = DisplayName item \<longrightarrow> g \<le> fileName item"
      using last assms(3) by auto
    with mem parts(1,2) assms(4)
    have "versions (getInstalledMods files) (DisplayName item) = Some (fileVersion (fileName item))"
      by (rule last_named_file_wins)
    then have v: "versions (getInstalledMods files) (DisplayName item) = Some (Version item)"
      by (simp add: parts(3) assms(9))
    have "fileName item \<in> set (filter accepted (sort files))"
      using mem parts(1) by simp
    then have "trim (rawName (fileName item)) \<in> set (names (getInstalledMods files))"
      unfolding names_getInstalledMods set_map by (rule imageI)
    then have n: "DisplayName item \<in> set (names (getInstalledMods files))"
      by (simp add: parts(2) assms(3))
    from v n show ?thesis
      by (simp add: findMatchingMods_def checkOutdatedMods_def arr_indexOf_mem)
  qed
  from g later show ?thesis
    by (simp add: findMatchingMods_def checkOutdatedMods_def)
qed

theorem download_roundtrip_witness:
  "\<not> sublist '' - '' (DisplayName mod_A) \<and> \<not> suffix '' -'' (DisplayName mod_A)
   \<and> trim (DisplayName mod_A) = DisplayName mod_A \<and> DisplayName mod_A \<noteq> ''__proto__''
   \<and> \<not> sublist ''V'' (Version mod_A) \<and> \<not> sublist '' - '' (Version mod_A)
   \<and> \<not> suffix '' -'' (Version mod_A) \<and> \<not> sublist ''_P.pak'' (Version mod_A)
   \<and> trim (Version mod_A) = Version mod_A
   \<and> fileName mod_A = ''A - V2 _P.pak''
   \<and> getInstalledMods [fileName mod_A] =
        \<lparr>names = [DisplayName mod_A], versions = [DisplayName mod_A \<mapsto> Version mod_A]\<rparr>
   \<and> checkOutdatedMods [mod_A] (getInstalledMods [fileName mod_A]) = []
   \<and> fileName mod_A \<in> set [''A - V2 _P.pak'', ''A - V1_P.pak'', ''Other.pak'']
   \<and> \<not> accepted ''Other.pak''
   \<and> rawName ''A - V1_P.pak'' = DisplayName mod_A \<and> ''A - V1_P.pak'' \<le> fileName mod_A
   \<and> rawName ''A - V2 _P.pak'' = DisplayName mod_A \<and> ''A - V2 _P.pak'' \<le> fileName mod_A
   \<and> versions (getInstalledMods [''A - V2 _P.pak'', ''A - V1_P.pak'', ''Other.pak''])
        (DisplayName mod_A) = Some (Version mod_A)
   \<and> checkOutdatedMods [mod_A]
        (getInstalledMods [''A - V2 _P.pak'', ''A - V1_P.pak'', ''Other.pak'']) = []"
proof -
  have h: "\<not> sublist '' - '' (DisplayName mod_A)" "\<not> suffix '' -'' (DisplayName mod_A)"
    "trim (DisplayName mod_A) = DisplayName mod_A" "DisplayName mod_A \<noteq> ''__proto__''"
    "\<not> sublist ''V'' (Version mod_A)" "\<not> sublist '' - '' (Version mod_A)"
    "\<not> suffix '' -'' (Version mod_A)" "\<not> sublist ''_P.pak'' (Version mod_A)"
    "trim (Version mod_A) = Version mod_A"
    by code_simp+
  have e: "fileName mod_A = ''A - V2 _P.pak''"
    by (simp add: fileName_def mod_A_def)
  have l: "fileName mod_A \<in> set [''A - V2 _P.pak'', ''A - V1_P.pak'', ''Other.pak'']"
    "\<not> accepted ''Other.pak''"
    "rawName ''A - V1_P.pak'' = DisplayName mod_A" "''A - V1_P.pak'' \<le> fileName mod_A"
    "rawName ''A - V2 _P.pak'' = DisplayName mod_A" "''A - V2 _P.pak'' \<le> fileName mod_A"
    by code_simp+
  have q: "\<forall>g \<in> set [''A - V2 _P.pak'', ''A - V1_P.pak'', ''Other.pak''].
      accepted g \<and> trim (rawName g) = DisplayName mod_A \<longrightarrow>
        rawName g = DisplayName mod_A \<and> g \<le> fileName mod_A"
    using l by simp
  from download_roundtrip [OF h, of "[''A - V2 _P.pak'', ''A - V1_P.pak'', ''Other.pak'']"] h e l q
  show ?thesis
    by blast
qed

text \<open>
  C10 fails for a version with a separator inside: the entry \<^verbatim>\<open>Foo\<close> with the version
  \<^verbatim>\<open>"1.2 - beta"\<close> is written to \<^verbatim>\<open>"Foo - V1.2 - beta _P.pak"\<close>, which parses to the version
  \<^verbatim>\<open>"1.2"\<close>, and the entry stays outdated. Its conclusion fails as well when the round trip
  succeeds: \<^verbatim>\<open>"A - V10 _P.pak"\<close> is sorted before the file \<^verbatim>\<open>"A - V9 _P.pak"\<close> that it
  replaces, the version kept is \<^verbatim>\<open>"9"\<close>, and the entry is outdated again.
\<close>

theorem download_roundtrip_counterexample:
  "\<not> sublist '' - '' (DisplayName mod_beta) \<and> \<not> sublist ''V'' (Version mod_beta)
   \<and> trim (DisplayName mod_beta) = DisplayName mod_beta
   \<and> trim (Version mod_beta) = Version mod_beta
   \<and> fileName mod_beta = ''Foo - V1.2 - beta _P.pak''
   \<and> names (getInstalledMods [fileName mod_beta]) = [''Foo'']
   \<and> versions (getInstalledMods [fileName mod_beta]) ''Foo'' = Some ''1.2''
   \<and> versions (getInstalledMods [fileName mod_beta]) ''Foo'' \<noteq> Some (Version mod_beta)
   \<and> checkOutdatedMods [mod_beta] (getInstalledMods [fileName mod_beta]) = [mod_beta]
   \<and> \<not> sublist '' - '' (DisplayName mod_ten) \<and> \<not> sublist ''V'' (Version mod_ten)
   \<and> trim (DisplayName mod_ten) = DisplayName mod_ten
   \<and> trim (Version mod_ten) = Version mod_ten
   \<and> fileName mod_ten = ''A - V10 _P.pak''
   \<and> versions (getInstalledMods [fileName mod_ten]) ''A'' = Some ''10''
   \<and> sort [''A - V9 _P.pak'', fileName mod_ten] = [''A - V10 _P.pak'', ''A - V9 _P.pak'']
   \<and> versions (getInstalledMods [''A - V9 _P.pak'', fileName mod_ten]) ''A'' = Some ''9''
   \<and> checkOutdatedMods [mod_ten] (getInstalledMods [''A - V9 _P.pak'', fileName mod_ten])
       = [mod_ten]"
  by code_simp

section \<open>Downloads and the run\<close>

lemma states_settle:
  "map snd (tasks (settle i p d)) = (map snd (tasks d))[i := p]"
  by (simp add: settle_def map_update)

lemma items_settle: "map fst (tasks (settle i p d)) = map fst (tasks d)"
  by (simp add: settle_def map_update) (metis list_update_id map_update)

lemma count_update:
  "i < length ps \<Longrightarrow>
     length (filter Q (ps[i := p])) + (if Q (ps ! i) then 1 else 0) =
     length (filter Q ps) + (if Q p then 1 else 0)"
proof (induction ps arbitrary: i)
  case Nil
  then show ?case by simp
next
  case (Cons a ps)
  show ?case
  proof (cases i)
    case 0
    then show ?thesis by simp
  next
    case (Suc k)
    with Cons.prems have "k < length ps" by simp
    from Cons.IH [OF this] Suc show ?thesis by simp
  qed
qed

lemma rejected_not_all_resolved:
  "Rejected \<in> set ps \<Longrightarrow> \<not> list_all (\<lambda>p. p = Resolved) ps"
  by (auto simp: list_all_iff)

lemma mem_update_other:
  "i < length ps \<Longrightarrow> ps ! i \<noteq> x \<Longrightarrow> q \<noteq> x \<Longrightarrow> x \<in> set (ps[i := q]) \<longleftrightarrow> x \<in> set ps"
proof (induction ps arbitrary: i)
  case Nil
  then show ?case by simp
next
  case (Cons a ps)
  then show ?case by (cases i) auto
qed

lemma not_all_update: "i < length ps \<Longrightarrow> \<not> Q q \<Longrightarrow> \<not> list_all Q (ps[i := q])"
  by (auto simp: list_all_iff dest: set_update_memI)

lemma not_all_nth: "i < length ps \<Longrightarrow> \<not> Q (ps ! i) \<Longrightarrow> \<not> list_all Q ps"
  by (auto simp: list_all_length)

text \<open>Joining restores the agreement when the state of one call has just changed.\<close>

lemma join_joined:
  assumes "allPromise d = Failed \<longrightarrow> Rejected \<in> set (map snd (tasks d))"
    and "allPromise d = Fulfilled \<longrightarrow> list_all (\<lambda>p. p = Resolved) (map snd (tasks d))"
    and "finishedCalls d =
          (if allPromise d = Failed \<or> allPromise d = Fulfilled \<and> \<not> barTimer d then 1 else 0)"
    and "barTimer d \<longrightarrow> allPromise d = Fulfilled"
    and "barStopped d \<longleftrightarrow> finishedCalls d = 1"
    and "(exitTimer d \<or> exitCode d = Some 0) \<longleftrightarrow> finishedCalls d = 1"
    and "exitCode d = None \<or> exitCode d = Some 0"
    and "''Failed to download files'' \<in> set (stderr d) \<longleftrightarrow> allPromise d = Failed"
    and "totalDownloadsBar d \<le> length (filter (\<lambda>p. p = Resolved) (map snd (tasks d)))"
    and "allPromise d \<noteq> Failed \<longrightarrow>
           totalDownloadsBar d = length (filter (\<lambda>p. p = Resolved) (map snd (tasks d)))"
  shows "joined (join d)"
proof (cases "allPromise d")
  case Pending
  show ?thesis
  proof (cases "Rejected \<in> set (map snd (tasks d))")
    case True
    with Pending assms(3-10) show ?thesis
      by (simp add: joined_def join_def finished_def rejected_not_all_resolved)
  next
    case False
    with Pending assms(3-10) show ?thesis
      by (simp add: joined_def join_def finished_def)
  qed
next
  case Fulfilled
  with assms(2) have all: "list_all (\<lambda>p. p = Resolved) (map snd (tasks d))" by simp
  then have "Rejected \<notin> set (map snd (tasks d))"
    using rejected_not_all_resolved by blast
  with Fulfilled all assms(3-10) show ?thesis
    by (simp add: joined_def join_def)
next
  case Failed
  with assms(1) have rej: "Rejected \<in> set (map snd (tasks d))" by simp
  then have "\<not> list_all (\<lambda>p. p = Resolved) (map snd (tasks d))"
    by (rule rejected_not_all_resolved)
  with Failed rej assms(3-10) show ?thesis
    by (simp add: joined_def join_def)
qed

lemma joined_start: "joined (downloadOutdatedMods outdatedMods)"
  unfolding downloadOutdatedMods_def by (rule join_joined) (simp_all add: comp_def)


text \<open>A call that was in flight settles, and the promises are joined.\<close>

lemma joined_settle_join:
  assumes inv: "joined d"
    and i: "i < length (tasks d)" "snd (tasks d ! i) \<noteq> Resolved" "snd (tasks d ! i) \<noteq> Rejected"
    and q: "terminal q"
    and same: "tasks d' = tasks d" "allPromise d' = allPromise d"
      "finishedCalls d' = finishedCalls d" "barTimer d' = barTimer d"
      "barStopped d' = barStopped d" "exitTimer d' = exitTimer d" "exitCode d' = exitCode d"
    and log: "''Failed to download files'' \<in> set (stderr d') \<longleftrightarrow>
        ''Failed to download files'' \<in> set (stderr d)"
    and bar: "totalDownloadsBar d' =
        totalDownloadsBar d + (if q = Resolved \<and> \<not> barStopped d then 1 else 0)"
  shows "joined (join (settle i q d'))"
proof -
  let ?ps = "map snd (tasks d)"
  have len: "i < length ?ps" and at: "?ps ! i \<noteq> Resolved" "?ps ! i \<noteq> Rejected"
    using i by simp_all
  have ps': "map snd (tasks (settle i q d')) = ?ps[i := q]"
    by (simp add: states_settle same)
  have pending: "\<not> list_all (\<lambda>p. p = Resolved) ?ps"
    using len at(1) by (rule not_all_nth)
  with inv have unfulfilled: "allPromise d \<noteq> Fulfilled"
    by (simp add: joined_def)
  have cnt: "length (filter (\<lambda>p. p = Resolved) (?ps[i := q])) =
      length (filter (\<lambda>p. p = Resolved) ?ps) + (if q = Resolved then 1 else 0)"
    using count_update [OF len, of "\<lambda>p. p = Resolved" q] at(1) by simp
  have rej: "Rejected \<in> set ?ps \<Longrightarrow> Rejected \<in> set (?ps[i := q])"
  proof (cases "q = Rejected")
    case True
    with len show ?thesis by (simp add: set_update_memI)
  next
    case False
    assume "Rejected \<in> set ?ps"
    with len at(2) False show ?thesis by (simp add: mem_update_other)
  qed
  have fields: "allPromise (settle i q d') = allPromise d"
    "finishedCalls (settle i q d') = finishedCalls d" "barTimer (settle i q d') = barTimer d"
    "barStopped (settle i q d') = barStopped d" "exitTimer (settle i q d') = exitTimer d"
    "exitCode (settle i q d') = exitCode d" "stderr (settle i q d') = stderr d'"
    "totalDownloadsBar (settle i q d') = totalDownloadsBar d'"
    by (simp_all add: settle_def same)
  show ?thesis
  proof (rule join_joined)
    show "allPromise (settle i q d') = Failed \<longrightarrow>
        Rejected \<in> set (map snd (tasks (settle i q d')))"
      using inv rej by (simp add: fields ps' joined_def)
    show "allPromise (settle i q d') = Fulfilled \<longrightarrow>
        list_all (\<lambda>p. p = Resolved) (map snd (tasks (settle i q d')))"
      using unfulfilled by (simp add: fields)
    show "finishedCalls (settle i q d') =
        (if allPromise (settle i q d') = Failed \<or>
            allPromise (settle i q d') = Fulfilled \<and> \<not> barTimer (settle i q d')
         then 1 else 0)"
      using inv by (simp add: fields joined_def)
    show "barTimer (settle i q d') \<longrightarrow> allPromise (settle i q d') = Fulfilled"
      using inv by (simp add: fields joined_def)
    show "barStopped (settle i q d') \<longleftrightarrow> finishedCalls (settle i q d') = 1"
      using inv by (simp add: fields joined_def)
    show "(exitTimer (settle i q d') \<or> exitCode (settle i q d') = Some 0) \<longleftrightarrow>
        finishedCalls (settle i q d') = 1"
      using inv by (simp add: fields joined_def)
    show "exitCode (settle i q d') = None \<or> exitCode (settle i q d') = Some 0"
      using inv by (simp add: fields joined_def)
    show "''Failed to download files'' \<in> set (stderr (settle i q d')) \<longleftrightarrow>
        allPromise (settle i q d') = Failed"
      using inv log by (simp add: fields joined_def)
    have stopped: "barStopped d \<longleftrightarrow> allPromise d = Failed"
      using inv unfulfilled by (simp add: joined_def split: if_splits)
    show "totalDownloadsBar (settle i q d') \<le>
        length (filter (\<lambda>p. p = Resolved) (map snd (tasks (settle i q d'))))"
      using inv by (simp add: fields ps' cnt bar joined_def)
    show "allPromise (settle i q d') \<noteq> Failed \<longrightarrow>
        totalDownloadsBar (settle i q d') =
        length (filter (\<lambda>p. p = Resolved) (map snd (tasks (settle i q d'))))"
      using inv stopped by (simp add: fields ps' cnt bar joined_def)
  qed
qed

lemma joined_headReply: "joined d \<Longrightarrow> joined (headReply i r d)"
proof (cases "i < length (tasks d) \<and> snd (tasks d ! i) = AwaitHead")
  case False
  assume "joined d"
  with False show ?thesis by (auto simp: headReply_def)
next
  case True
  assume inv: "joined d"
  show ?thesis
  proof (cases r)
    case HeadError
    have "joined (join (settle i Rejected d))"
      using inv True by (intro joined_settle_join [of d]) (simp_all add: terminal_def)
    with True HeadError show ?thesis by (simp add: headReply_def)
  next
    case (Headers contentLength)
    let ?ps = "map snd (tasks d)"
    let ?d = "d\<lparr>written := written d @ [fileName (fst (tasks d ! i))],
                 barTotals := barTotals d @ [contentLength]\<rparr>"
    from True have len: "i < length ?ps" and at: "?ps ! i = AwaitHead"
      by simp_all
    have ps': "map snd (tasks (settle i Streaming ?d)) = ?ps[i := Streaming]"
      by (simp add: states_settle)
    have same: "Rejected \<in> set (?ps[i := Streaming]) \<longleftrightarrow> Rejected \<in> set ?ps"
      using len at by (intro mem_update_other) simp_all
    have still: "\<not> list_all (\<lambda>p. p = Resolved) (?ps[i := Streaming])"
      using len by (intro not_all_update) simp_all
    have pending: "\<not> list_all (\<lambda>p. p = Resolved) ?ps"
      using len at by (intro not_all_nth [of i]) simp_all
    have cnt: "length (filter (\<lambda>p. p = Resolved) (?ps[i := Streaming])) =
        length (filter (\<lambda>p. p = Resolved) ?ps)"
      using count_update [OF len, of "\<lambda>p. p = Resolved" Streaming] at by simp
    have fields: "allPromise (settle i Streaming ?d) = allPromise d"
      "finishedCalls (settle i Streaming ?d) = finishedCalls d"
      "barTimer (settle i Streaming ?d) = barTimer d"
      "barStopped (settle i Streaming ?d) = barStopped d"
      "exitTimer (settle i Streaming ?d) = exitTimer d"
      "exitCode (settle i Streaming ?d) = exitCode d"
      "stderr (settle i Streaming ?d) = stderr d"
      "totalDownloadsBar (settle i Streaming ?d) = totalDownloadsBar d"
      by (simp_all add: settle_def)
    have "joined (settle i Streaming ?d)"
      using inv pending unfolding joined_def fields ps' same cnt
      by (simp add: still)
    with True Headers show ?thesis by (simp add: headReply_def)
  qed
qed

lemma joined_pipelineReply: "joined d \<Longrightarrow> joined (pipelineReply i r d)"
proof (cases "i < length (tasks d) \<and> snd (tasks d ! i) = Streaming")
  case False
  assume "joined d"
  with False show ?thesis by (auto simp: pipelineReply_def)
next
  case True
  assume inv: "joined d"
  show ?thesis
  proof (cases r)
    case PipelineDone
    have "joined (join (settle i Resolved (increment d)))"
      using inv True
      by (intro joined_settle_join [of d]) (simp_all add: terminal_def increment_def)
    with True PipelineDone show ?thesis by (simp add: pipelineReply_def)
  next
    case PipelineError
    have "joined (join (settle i Rejected
        (d\<lparr>stderr := stderr d @ [''Download failed for '' @ fileName (fst (tasks d ! i))]\<rparr>)))"
      using inv True by (intro joined_settle_join [of d]) (simp_all add: terminal_def)
    with True PipelineError show ?thesis by (simp add: pipelineReply_def)
  qed
qed

lemma joined_barTimeout: "joined d \<Longrightarrow> joined (barTimeout d)"
  by (auto simp: joined_def barTimeout_def finished_def split: if_splits)

lemma joined_exitTimeout: "joined d \<Longrightarrow> joined (exitTimeout d)"
  by (auto simp: joined_def exitTimeout_def split: if_splits)

lemma joined_deliver: "joined d \<Longrightarrow> joined (deliver d ev)"
  by (cases ev)
    (simp_all add: joined_headReply joined_pipelineReply joined_barTimeout joined_exitTimeout)

lemma joined_step: "joined d \<Longrightarrow> joined (step d ev)"
  by (simp add: step_def joined_deliver)

lemma joined_foldl: "joined d \<Longrightarrow> joined (foldl step d evs)"
  by (induction evs arbitrary: d) (simp_all add: joined_step)

lemma joined_downloading: "joined (downloading outdatedMods evs)"
  by (simp add: downloading_def joined_foldl joined_start)

lemma tasks_join [simp]: "tasks (join d) = tasks d"
  by (simp add: join_def finished_def)

lemma written_join [simp]: "written (join d) = written d"
  by (simp add: join_def finished_def)

lemma barTotals_join [simp]: "barTotals (join d) = barTotals d"
  by (simp add: join_def finished_def)

lemma totalDownloadsBar_join [simp]: "totalDownloadsBar (join d) = totalDownloadsBar d"
  by (simp add: join_def finished_def)

lemma tasks_increment [simp]: "tasks (increment d) = tasks d"
  by (simp add: increment_def)

lemma stderr_join: "set (stderr d) \<subseteq> set (stderr (join d))"
  by (auto simp: join_def finished_def)

lemma items_deliver: "map fst (tasks (deliver d ev)) = map fst (tasks d)"
  by (cases ev)
    (simp_all add: headReply_def pipelineReply_def barTimeout_def exitTimeout_def finished_def
      items_settle split: head_reply.splits pipeline_reply.splits)

lemma items_foldl: "map fst (tasks (foldl step d evs)) = map fst (tasks d)"
  by (induction evs arbitrary: d) (simp_all add: step_def items_deliver)

lemma items_downloading: "map fst (tasks (downloading outdatedMods evs)) = outdatedMods"
  by (simp add: downloading_def items_foldl downloadOutdatedMods_def comp_def)

lemma deliver_other:
  "j \<noteq> i \<Longrightarrow> tasks (deliver d (Head i h)) ! j = tasks d ! j"
  "j \<noteq> i \<Longrightarrow> tasks (deliver d (Pipeline i p)) ! j = tasks d ! j"
  by (simp_all add: headReply_def pipelineReply_def settle_def increment_def
      split: head_reply.splits pipeline_reply.splits)

lemma deliver_timer:
  "tasks (deliver d BarTimer) = tasks d" "tasks (deliver d ExitTimer) = tasks d"
  by (simp_all add: barTimeout_def exitTimeout_def finished_def)

lemma deliver_terminal:
  assumes "terminal (snd (tasks d ! j))"
  shows "tasks (deliver d ev) ! j = tasks d ! j"
proof (cases ev)
  case (Head i h)
  show ?thesis
  proof (cases "j = i")
    case True
    with assms Head show ?thesis by (auto simp: headReply_def terminal_def)
  next
    case False
    with Head show ?thesis by (simp add: deliver_other del: deliver.simps)
  qed
next
  case (Pipeline i p)
  show ?thesis
  proof (cases "j = i")
    case True
    with assms Pipeline show ?thesis by (auto simp: pipelineReply_def terminal_def)
  next
    case False
    with Pipeline show ?thesis by (simp add: deliver_other del: deliver.simps)
  qed
next
  case BarTimer
  then show ?thesis by (simp only: deliver_timer)
next
  case ExitTimer
  then show ?thesis by (simp only: deliver_timer)
qed

lemma terminal_foldl:
  "terminal (snd (tasks d ! j)) \<Longrightarrow> tasks (foldl deliver d evs) ! j = tasks d ! j"
proof (induction evs arbitrary: d)
  case Nil
  show ?case by simp
next
  case (Cons ev evs)
  have same: "tasks (deliver d ev) ! j = tasks d ! j"
    using Cons.prems by (rule deliver_terminal)
  with Cons.prems have "terminal (snd (tasks (deliver d ev) ! j))" by simp
  from Cons.IH [OF this] same show ?case by simp
qed

lemma step_exited: "exitCode d \<noteq> None \<Longrightarrow> foldl step d evs = d"
proof (induction evs)
  case Nil
  show ?case by simp
next
  case (Cons ev evs)
  from Cons.prems have "step d ev = d"
    by (auto simp: step_def)
  with Cons show ?case by simp
qed

lemma step_other:
  "j \<noteq> i \<Longrightarrow> tasks (step d (Head i h)) ! j = tasks d ! j"
  "j \<noteq> i \<Longrightarrow> tasks (step d (Pipeline i p)) ! j = tasks d ! j"
  by (simp_all add: step_def deliver_other del: deliver.simps)

lemma step_stopped:
  "barStopped d \<Longrightarrow> totalDownloadsBar (step d ev) = totalDownloadsBar d"
  by (cases ev)
    (simp_all add: step_def headReply_def pipelineReply_def barTimeout_def exitTimeout_def
      finished_def settle_def increment_def split: head_reply.splits pipeline_reply.splits)

lemma step_logs_stream_failure:
  assumes "k < length (tasks d)" "snd (tasks d ! k) = Streaming" "exitCode d = None"
  shows "''Download failed for '' @ fileName (fst (tasks d ! k))
           \<in> set (stderr (step d (Pipeline k PipelineError)))"
proof -
  let ?d = "settle k Rejected
      (d\<lparr>stderr := stderr d @ [''Download failed for '' @ fileName (fst (tasks d ! k))]\<rparr>)"
  have "''Download failed for '' @ fileName (fst (tasks d ! k)) \<in> set (stderr ?d)"
    by (simp add: settle_def)
  then have "''Download failed for '' @ fileName (fst (tasks d ! k)) \<in> set (stderr (join ?d))"
    using stderr_join [of ?d] by blast
  with assms show ?thesis
    by (simp add: step_def pipelineReply_def)
qed

text \<open>
  C1 (as the code has it). Whatever the items and whatever the replies, the timers and
  their order: \<^verbatim>\<open>Promise.all(promises)\<close> has failed exactly when some call of
  \<^verbatim>\<open>downloadFile\<close> has been rejected, and is fulfilled exactly when all of them are
  resolved, so it settles at the first failure and not after the last task. \<^verbatim>\<open>finished\<close>
  has been called once when the join has failed, or when the 1000 ms timer has fired after
  its fulfilment, and not otherwise: a failure does not abort the run. Exactly from then on
  the bar is stopped and \<^verbatim>\<open>process.exit(0)\<close> is armed or done; 0 is the only exit code. The
  failure of the join is logged exactly when it has failed. \<^verbatim>\<open>totalDownloadsBar\<close> never
  exceeds the number of resolved calls and equals it as long as the join has not failed.
  The tasks are the outdated mods, in order.

  Step by step: after the exit no events change anything, so the calls in flight are cut
  off where they are; the armed exit timer ends the process with code 0; a reply addressed
  to one call leaves every other call as it was; once the bar is stopped no event changes
  its value, so a success after the first failure is not counted; and a stream that fails
  before the exit is logged with its file name.
\<close>

theorem join_settles_at_first_failure:
  "(allPromise (downloading mods evs) = Failed \<longleftrightarrow>
      Rejected \<in> set (map snd (tasks (downloading mods evs))))
   \<and> (allPromise (downloading mods evs) = Fulfilled \<longleftrightarrow>
      list_all (\<lambda>p. p = Resolved) (map snd (tasks (downloading mods evs))))
   \<and> finishedCalls (downloading mods evs) =
      (if allPromise (downloading mods evs) = Failed
          \<or> allPromise (downloading mods evs) = Fulfilled \<and> \<not> barTimer (downloading mods evs)
       then 1 else 0)
   \<and> (barStopped (downloading mods evs) \<longleftrightarrow> finishedCalls (downloading mods evs) = 1)
   \<and> ((exitTimer (downloading mods evs) \<or> exitCode (downloading mods evs) = Some 0) \<longleftrightarrow>
        finishedCalls (downloading mods evs) = 1)
   \<and> (exitCode (downloading mods evs) = None \<or> exitCode (downloading mods evs) = Some 0)
   \<and> (''Failed to download files'' \<in> set (stderr (downloading mods evs)) \<longleftrightarrow>
        allPromise (downloading mods evs) = Failed)
   \<and> totalDownloadsBar (downloading mods evs) \<le>
        length (filter (\<lambda>p. p = Resolved) (map snd (tasks (downloading mods evs))))
   \<and> (allPromise (downloading mods evs) \<noteq> Failed \<longrightarrow>
        totalDownloadsBar (downloading mods evs) =
          length (filter (\<lambda>p. p = Resolved) (map snd (tasks (downloading mods evs)))))
   \<and> map fst (tasks (downloading mods evs)) = mods
   \<and> (exitCode s \<noteq> None \<longrightarrow> foldl step s later = s)
   \<and> (exitTimer t \<and> exitCode t = None \<longrightarrow> exitCode (step t ExitTimer) = Some 0)
   \<and> (j \<noteq> i \<longrightarrow> tasks (step t (Head i h)) ! j = tasks t ! j
                \<and> tasks (step t (Pipeline i p)) ! j = tasks t ! j)
   \<and> (barStopped t \<longrightarrow> totalDownloadsBar (step t ev) = totalDownloadsBar t)
   \<and> (k < length (tasks t) \<and> snd (tasks t ! k) = Streaming \<and> exitCode t = None \<longrightarrow>
        ''Download failed for '' @ fileName (fst (tasks t ! k))
          \<in> set (stderr (step t (Pipeline k PipelineError))))"
proof -
  have "joined (downloading mods evs)"
    by (rule joined_downloading)
  then have inv: "(allPromise (downloading mods evs) = Failed \<longleftrightarrow>
      Rejected \<in> set (map snd (tasks (downloading mods evs))))
   \<and> (allPromise (downloading mods evs) = Fulfilled \<longleftrightarrow>
      list_all (\<lambda>p. p = Resolved) (map snd (tasks (downloading mods evs))))
   \<and> finishedCalls (downloading mods evs) =
      (if allPromise (downloading mods evs) = Failed
          \<or> allPromise (downloading mods evs) = Fulfilled \<and> \<not> barTimer (downloading mods evs)
       then 1 else 0)
   \<and> (barStopped (downloading mods evs) \<longleftrightarrow> finishedCalls (downloading mods evs) = 1)
   \<and> ((exitTimer (downloading mods evs) \<or> exitCode (downloading mods evs) = Some 0) \<longleftrightarrow>
        finishedCalls (downloading mods evs) = 1)
   \<and> (exitCode (downloading mods evs) = None \<or> exitCode (downloading mods evs) = Some 0)
   \<and> (''Failed to download files'' \<in> set (stderr (downloading mods evs)) \<longleftrightarrow>
        allPromise (downloading mods evs) = Failed)
   \<and> totalDownloadsBar (downloading mods evs) \<le>
        length (filter (\<lambda>p. p = Resolved) (map snd (tasks (downloading mods evs))))
   \<and> (allPromise (downloading mods evs) \<noteq> Failed \<longrightarrow>
        totalDownloadsBar (downloading mods evs) =
          length (filter (\<lambda>p. p = Resolved) (map snd (tasks (downloading mods evs)))))"
    unfolding joined_def by blast
  have steps: "(exitCode s \<noteq> None \<longrightarrow> foldl step s later = s)
   \<and> (exitTimer t \<and> exitCode t = None \<longrightarrow> exitCode (step t ExitTimer) = Some 0)
   \<and> (j \<noteq> i \<longrightarrow> tasks (step t (Head i h)) ! j = tasks t ! j
                \<and> tasks (step t (Pipeline i p)) ! j = tasks t ! j)
   \<and> (barStopped t \<longrightarrow> totalDownloadsBar (step t ev) = totalDownloadsBar t)
   \<and> (k < length (tasks t) \<and> snd (tasks t ! k) = Streaming \<and> exitCode t = None \<longrightarrow>
        ''Download failed for '' @ fileName (fst (tasks t ! k))
          \<in> set (stderr (step t (Pipeline k PipelineError))))"
    using step_other [of j i t] step_stopped [of t ev] step_logs_stream_failure [of k t]
      step_exited [of s later]
    by (auto simp: step_def exitTimeout_def)
  from inv items_downloading [of mods evs] steps show ?thesis
    by blast
qed

theorem join_settles_at_first_failure_witness:
  "exitCode (downloading three_mods exit_first) = Some 0
   \<and> foldl step (downloading three_mods exit_first) others_complete =
       downloading three_mods exit_first
   \<and> exitTimer (downloading three_mods stream2_fails)
   \<and> exitCode (downloading three_mods stream2_fails) = None
   \<and> exitCode (step (downloading three_mods stream2_fails) ExitTimer) = Some 0
   \<and> (0::nat) \<noteq> 1
   \<and> tasks (step (downloading three_mods stream2_fails) (Pipeline 1 PipelineDone)) ! 0 =
       tasks (downloading three_mods stream2_fails) ! 0
   \<and> barStopped (downloading three_mods stream2_fails)
   \<and> totalDownloadsBar (step (downloading three_mods stream2_fails) (Pipeline 0 PipelineDone)) =
       totalDownloadsBar (downloading three_mods stream2_fails)
   \<and> 2 < length (tasks (downloading three_mods stream2_fails))
   \<and> snd (tasks (downloading three_mods stream2_fails) ! 2) = Streaming
   \<and> ''Download failed for '' @ fileName (fst (tasks (downloading three_mods stream2_fails) ! 2))
       \<in> set (stderr (step (downloading three_mods stream2_fails) (Pipeline 2 PipelineError)))
   \<and> allPromise (downloading three_mods (stream2_fails @ others_complete)) = Failed
   \<and> Rejected \<in> set (map snd (tasks (downloading three_mods (stream2_fails @ others_complete))))
   \<and> finishedCalls (downloading three_mods (stream2_fails @ others_complete)) = 1
   \<and> ''Failed to download files''
       \<in> set (stderr (downloading three_mods (stream2_fails @ others_complete)))
   \<and> map fst (tasks (downloading three_mods (stream2_fails @ others_complete))) = three_mods"
proof -
  let ?s = "downloading three_mods exit_first"
  let ?t = "downloading three_mods stream2_fails"
  have h: "exitCode ?s = Some 0" "exitTimer ?t" "exitCode ?t = None" "(0::nat) \<noteq> 1"
    "barStopped ?t" "2 < length (tasks ?t)" "snd (tasks ?t ! 2) = Streaming"
    by code_simp+
  have e: "allPromise (downloading three_mods (stream2_fails @ others_complete)) = Failed"
    by code_simp
  note t = join_settles_at_first_failure
    [where mods = three_mods and evs = "stream2_fails @ others_complete"
      and s = ?s and later = others_complete and t = ?t
      and j = 0 and i = 1 and h = "Headers None" and p = PipelineDone
      and ev = "Pipeline 0 PipelineDone" and k = 2]
  have eq: "foldl step ?s others_complete = ?s"
    using t h(1) by simp
  have bar: "totalDownloadsBar (step ?t (Pipeline 0 PipelineDone)) = totalDownloadsBar ?t"
    using t h(5) by blast
  from t h e eq bar show ?thesis
    by (simp del: deliver.simps foldl_Cons)
qed

text \<open>
  C1 fails at three outdated mods when the stream of the second fails first: the join has
  failed and \<^verbatim>\<open>finished\<close> has been called while the first and the third call are still
  streaming, and no success has been counted. When the other two streams end before the
  exit their successes are not counted, the bar being stopped; when the exit comes first
  they never end.
\<close>

theorem wait_for_all_counterexample:
  "allPromise (downloading three_mods stream2_fails) = Failed
   \<and> finishedCalls (downloading three_mods stream2_fails) = 1
   \<and> map snd (tasks (downloading three_mods stream2_fails)) = [Streaming, Rejected, Streaming]
   \<and> \<not> list_all terminal (map snd (tasks (downloading three_mods stream2_fails)))
   \<and> totalDownloadsBar (downloading three_mods stream2_fails) = 0
   \<and> map snd (tasks (downloading three_mods (stream2_fails @ others_complete))) =
       [Resolved, Rejected, Resolved]
   \<and> totalDownloadsBar (downloading three_mods (stream2_fails @ others_complete)) = 0
   \<and> map snd (tasks (downloading three_mods exit_first)) = [Streaming, Rejected, Streaming]
   \<and> exitCode (downloading three_mods exit_first) = Some 0
   \<and> totalDownloadsBar (downloading three_mods exit_first) = 0"
  by code_simp

text \<open>
  C2 (as the code has it). \<^verbatim>\<open>await got.head(url)\<close> is not guarded: when the request fails,
  the call of \<^verbatim>\<open>downloadFile\<close> is rejected for good, and no progress bar and no file
  writer is created for it. When the request succeeds, the download proceeds, the file is
  opened and the progress bar gets the \<^verbatim>\<open>content-length\<close> header as its total, also when
  the header is absent (an indeterminate total).
\<close>

theorem probe_failure_fails_task:
  assumes "i < length (tasks d)" "snd (tasks d ! i) = AwaitHead"
  shows "snd (tasks (deliver d (Head i HeadError)) ! i) = Rejected
       \<and> written (deliver d (Head i HeadError)) = written d
       \<and> barTotals (deliver d (Head i HeadError)) = barTotals d
       \<and> snd (tasks (foldl deliver (deliver d (Head i HeadError)) evs) ! i) = Rejected
       \<and> snd (tasks (deliver d (Head i (Headers contentLength))) ! i) = Streaming
       \<and> written (deliver d (Head i (Headers contentLength))) =
           written d @ [fileName (fst (tasks d ! i))]
       \<and> barTotals (deliver d (Head i (Headers contentLength))) = barTotals d @ [contentLength]"
proof -
  have rej: "snd (tasks (deliver d (Head i HeadError)) ! i) = Rejected"
    using assms by (simp add: headReply_def settle_def)
  then have "terminal (snd (tasks (deliver d (Head i HeadError)) ! i))"
    by (simp add: terminal_def)
  then have "tasks (foldl deliver (deliver d (Head i HeadError)) evs) ! i =
      tasks (deliver d (Head i HeadError)) ! i"
    by (rule terminal_foldl)
  with rej have "snd (tasks (foldl deliver (deliver d (Head i HeadError)) evs) ! i) = Rejected"
    by simp
  with rej assms show ?thesis
    by (simp add: headReply_def settle_def del: foldl_Cons)
qed

theorem probe_failure_fails_task_witness:
  "(0::nat) < length (tasks (downloadOutdatedMods [mod_A]))
   \<and> snd (tasks (downloadOutdatedMods [mod_A]) ! 0) = AwaitHead
   \<and> snd (tasks (deliver (downloadOutdatedMods [mod_A]) (Head 0 HeadError)) ! 0) = Rejected
   \<and> written (deliver (downloadOutdatedMods [mod_A]) (Head 0 HeadError)) = []
   \<and> snd (tasks (foldl deliver (deliver (downloadOutdatedMods [mod_A]) (Head 0 HeadError))
        [Pipeline 0 PipelineDone]) ! 0) = Rejected
   \<and> snd (tasks (deliver (downloadOutdatedMods [mod_A]) (Head 0 (Headers None))) ! 0) = Streaming
   \<and> written (deliver (downloadOutdatedMods [mod_A]) (Head 0 (Headers None))) = [''A - V2 _P.pak'']
   \<and> barTotals (deliver (downloadOutdatedMods [mod_A]) (Head 0 (Headers None))) = [None]"
proof -
  let ?d = "downloadOutdatedMods [mod_A]"
  have h: "(0::nat) < length (tasks ?d)" "snd (tasks ?d ! 0) = AwaitHead"
    by code_simp+
  have e: "written ?d = []" "barTotals ?d = []" "fileName (fst (tasks ?d ! 0)) = ''A - V2 _P.pak''"
    by code_simp+
  from probe_failure_fails_task [OF h, of "[Pipeline 0 PipelineDone]" None] h e show ?thesis
    by (simp del: deliver.simps foldl_Cons)
qed

text \<open>
  C2 fails at a single outdated mod whose \<^verbatim>\<open>HEAD\<close> request fails: the task is rejected,
  no file is opened, and a later end of a pipeline finds nothing to complete.
\<close>

theorem probe_failure_counterexample:
  "map snd (tasks (downloading [mod_A] [Head 0 HeadError])) = [Rejected]
   \<and> written (downloading [mod_A] [Head 0 HeadError]) = []
   \<and> allPromise (downloading [mod_A] [Head 0 HeadError]) = Failed
   \<and> map snd (tasks (downloading [mod_A] [Head 0 HeadError, Pipeline 0 PipelineDone])) = [Rejected]
   \<and> written (downloading [mod_A] [Head 0 HeadError, Pipeline 0 PipelineDone]) = []
   \<and> totalDownloadsBar (downloading [mod_A] [Head 0 HeadError, Pipeline 0 PipelineDone]) = 0"
  by code_simp

lemma status_without_dir:
  "status (start [''node'', ''start.mjs''] localeSort fetched listed) = 1"
  by (simp add: start_def exits_def status_def)

lemma start_with_dir:
  "start [''node'', ''start.mjs'', ''dir=C:/DRG''] localeSort fetched listed =
     checkMods localeSort fetched listed"
  by (simp add: start_def)

text \<open>
  C3 (as the code has it). When the registry fetch or the directory read fails, the
  \<^verbatim>\<open>then\<close> handler of \<^verbatim>\<open>checkMods\<close> does not run: nothing is reconciled and no download
  task is created. The \<^verbatim>\<open>catch\<close> handler logs \<^verbatim>\<open>Failed to get data\<close> and calls no
  \<^verbatim>\<open>process.exit\<close>, so the status of the process is 0.
\<close>

theorem fetch_failure_aborts:
  assumes "isl fetched \<or> isl listed"
  shows "checkMods localeSort fetched listed = Aborted ''Failed to get data''
       \<and> created (checkMods localeSort fetched listed) = []
       \<and> exits (checkMods localeSort fetched listed) = []
       \<and> status (checkMods localeSort fetched listed) = 0"
proof -
  have "checkMods localeSort fetched listed = Aborted ''Failed to get data''"
    using assms by (cases fetched; cases listed) (simp_all add: checkMods_def)
  then show ?thesis
    by (simp add: created_def exits_def status_def)
qed

theorem fetch_failure_aborts_witness:
  "isl (Inl RegistryFetchError :: error + (string \<times> entry) list)
   \<and> checkMods (\<lambda>xs. xs) (Inl RegistryFetchError) (Inr [''A - V1_P.pak'']) =
       Aborted ''Failed to get data''
   \<and> created (checkMods (\<lambda>xs. xs) (Inl RegistryFetchError) (Inr [''A - V1_P.pak''])) = []
   \<and> isl (Inl DirectoryReadError :: error + string list)
   \<and> checkMods (\<lambda>xs. xs) (Inr [(''a'', \<lparr>DisplayName = ''A'', Version = ''2'', DownloadUrl = ''u''\<rparr>)])
        (Inl DirectoryReadError) = Aborted ''Failed to get data''
   \<and> exits (checkMods (\<lambda>xs. xs)
        (Inr [(''a'', \<lparr>DisplayName = ''A'', Version = ''2'', DownloadUrl = ''u''\<rparr>)])
        (Inl DirectoryReadError)) = []"
proof -
  have h: "isl (Inl RegistryFetchError :: error + (string \<times> entry) list)"
    "isl (Inl DirectoryReadError :: error + string list)"
    by simp_all
  from h
    fetch_failure_aborts [of "Inl RegistryFetchError" "Inr [''A - V1_P.pak'']" "\<lambda>xs. xs"]
    fetch_failure_aborts
      [of "Inr [(''a'', \<lparr>DisplayName = ''A'', Version = ''2'', DownloadUrl = ''u''\<rparr>)]"
        "Inl DirectoryReadError" "\<lambda>xs. xs"]
  show ?thesis
    by blast
qed

text \<open>
  C3 fails in its last part: with a failed registry fetch, and with a failed directory
  read, the status is 0.
\<close>

theorem nonzero_exit_counterexample:
  "status (checkMods (\<lambda>xs. xs) (Inl RegistryFetchError) (Inr [''A - V1_P.pak''])) = 0
   \<and> exits (checkMods (\<lambda>xs. xs) (Inl RegistryFetchError) (Inr [''A - V1_P.pak''])) = []
   \<and> status (checkMods (\<lambda>xs. xs) (Inr []) (Inl DirectoryReadError)) = 0"
  by (simp add: checkMods_def exits_def status_def)

end
